theory Spec2Isabelle
  imports Main "HOL-Library.Word" "HOL-Library.Char_ord" "HOL-Library.List_Lexorder"
begin

unbundle bit_operations_syntax

text \<open>
  A model of IPG, a generator of backtracking recursive-descent parsers: the parser of
  the grammar notation (\<^verbatim>\<open>ParseGen::parse_*\<close>), the validator
  (\<^verbatim>\<open>ParseGen::check_rules\<close>), the driver (\<^verbatim>\<open>main\<close>) and the parser that
  \<^verbatim>\<open>ParseGen::print_parser\<close> emits. The definitions follow the newest version of the
  generator under src/ (the one that includes ASTNode.h; it is the file
  src/unnamed/part_002) together with src/utils.h and src/ASTNode.h. The two older
  versions in src/ipg.cpp have the same grammar parser, validator and driver up to their
  print statements.

  The counters \<^verbatim>\<open>m_pos\<close>, \<^verbatim>\<open>m_line\<close>, \<^verbatim>\<open>m_col\<close> (\<^verbatim>\<open>uint32_t\<close>) are natural
  numbers and the lengths (\<^verbatim>\<open>int32_t\<close>, with -1 for failure) are integers: a text of
  fewer than \<open>2\<^sup>3\<^sup>1\<close> bytes does not make them wrap. Messages to standard error are
  kept where a property is about them (type \<open>Message\<close>), and dropped otherwise.
\<close>

section \<open>Bytes and C strings\<close>

text \<open>
  The generator reads its grammar from a NUL-terminated \<^verbatim>\<open>const char *m_text\<close>.
  A text is modelled as the list of the bytes before the terminator; reading at index
  \<open>length txt\<close> gives the terminator. Reads behind the terminator are outside the buffer
  in the source; the model returns NUL there as well.

  Plain \<^verbatim>\<open>char\<close> is signed: \<^verbatim>\<open>parse_char\<close> tests \<^verbatim>\<open>ch < 0\<close> for "high bit set".
  \<open>schar\<close> is the value of a \<^verbatim>\<open>char\<close>, \<open>uchar\<close> the value after the cast
  \<^verbatim>\<open>(uint8_t)\<close>.
\<close>

definition uchar :: "char \<Rightarrow> nat" where
  "uchar c = of_char c"

definition schar :: "char \<Rightarrow> int" where
  "schar c = (if uchar c < 128 then int (uchar c) else int (uchar c) - 256)"

definition char_at :: "string \<Rightarrow> nat \<Rightarrow> char" where
  "char_at txt i = (if i < length txt then txt ! i else CHR 0x00)"

text \<open>\<^verbatim>\<open>std::string(&m_text[p], n)\<close>: the \<open>n\<close> bytes from index \<open>p\<close>.\<close>

definition substr :: "string \<Rightarrow> nat \<Rightarrow> nat \<Rightarrow> string" where
  "substr txt p n = map (char_at txt) [p ..< p + n]"

section \<open>UTF-8 decoding\<close>

text \<open>
  \<^verbatim>\<open>utf8_to_int32(int32_t *num, const char *str)\<close> of utils.h. The pointer is a text and
  an index. The result is \<open>Some (num, n_bytes)\<close>, or \<open>None\<close> for the return value -1.
  The loop runs over \<open>i = 1, ..., n_bytes - 1\<close>.
\<close>

fun utf8_to_int32_loop :: "string \<Rightarrow> nat \<Rightarrow> nat list \<Rightarrow> nat \<Rightarrow> nat option" where
  "utf8_to_int32_loop str p [] val = Some val"
| "utf8_to_int32_loop str p (i # is) val =
     (let val1 = push_bit 6 val;
          byte = uchar (char_at str (p + i))
      in if byte AND 0xc0 \<noteq> 0x80 then None
         else utf8_to_int32_loop str p is (val1 + (byte AND 0x3f)))"

definition utf8_to_int32 :: "string \<Rightarrow> nat \<Rightarrow> (int \<times> int) option" where
  "utf8_to_int32 str p =
     (let byte = uchar (char_at str p)
      in if byte AND 0x80 = 0 then Some (int byte, 1)
         else if byte AND 0xe0 = 0xc0 then
           map_option (\<lambda>v. (int v, 2)) (utf8_to_int32_loop str p [1 ..< 2] (byte AND 0x1f))
         else if byte AND 0xf0 = 0xe0 then
           map_option (\<lambda>v. (int v, 3)) (utf8_to_int32_loop str p [1 ..< 3] (byte AND 0x0f))
         else if byte AND 0xf8 = 0xf0 then
           map_option (\<lambda>v. (int v, 4)) (utf8_to_int32_loop str p [1 ..< 4] (byte AND 0x07))
         else None)"

text \<open>
  \<^verbatim>\<open>ParseGen::parse_utf8_char()\<close>: returns the length or -1. Its loop starts at
  \<open>i = 0\<close> and compares \<^verbatim>\<open>(byte & 0xc0)\<close> with \<^verbatim>\<open>0xc0\<close>.
\<close>

fun parse_utf8_char_loop :: "string \<Rightarrow> nat \<Rightarrow> nat list \<Rightarrow> bool" where
  "parse_utf8_char_loop txt p [] = True"
| "parse_utf8_char_loop txt p (i # is) =
     (let byte = uchar (char_at txt (p + i))
      in if byte AND 0xc0 \<noteq> 0xc0 then False else parse_utf8_char_loop txt p is)"

definition parse_utf8_char :: "string \<Rightarrow> nat \<Rightarrow> int" where
  "parse_utf8_char txt p =
     (let byte = uchar (char_at txt p)
      in if byte AND 0x80 = 0 then 1
         else if byte AND 0xe0 = 0xc0 then
           (if parse_utf8_char_loop txt p [0 ..< 2] then 2 else -1)
         else if byte AND 0xf0 = 0xe0 then
           (if parse_utf8_char_loop txt p [0 ..< 3] then 3 else -1)
         else if byte AND 0xf8 = 0xf0 then
           (if parse_utf8_char_loop txt p [0 ..< 4] then 4 else -1)
         else -1)"

section \<open>The grammar model\<close>

datatype ElemType = NAME | ALT | GROUP | STRING | CH_CLASS

datatype QuantifierType = ONE | ZERO_ONE | ZERO_PLUS | ONE_PLUS

datatype Elem =
  Elem (m_type: ElemType) (m_text: "string list") (m_quantifier: QuantifierType)
       (m_sub_elems: "Elem list")

text \<open>The two constructors of the class \<^verbatim>\<open>Elem\<close>.\<close>

definition Elem1 :: "ElemType \<Rightarrow> Elem" where
  "Elem1 t = Elem t [] ONE []"

definition Elem2 :: "ElemType \<Rightarrow> string \<Rightarrow> Elem" where
  "Elem2 t s = Elem t [s] ONE []"

definition push_text :: "Elem \<Rightarrow> string \<Rightarrow> Elem" where
  "push_text e s = Elem (m_type e) (m_text e @ [s]) (m_quantifier e) (m_sub_elems e)"

definition pop_text :: "Elem \<Rightarrow> Elem" where
  "pop_text e = Elem (m_type e) (butlast (m_text e)) (m_quantifier e) (m_sub_elems e)"

record Rule =
  m_name :: string
  m_mod :: string
  m_elems :: "Elem list"

text \<open>
  \<^verbatim>\<open>std::map<std::string, Rule>\<close>: an association list kept sorted by key, with
  distinct keys. \<^verbatim>\<open>std::string\<close> compares bytes as unsigned values,
  lexicographically.
\<close>

record Grammar =
  m_rules :: "(string \<times> Rule) list"
  m_rule_root :: string

section \<open>The cursor of the grammar parser\<close>

record Cursor =
  m_pos :: nat
  m_line :: nat
  m_col :: nat

text \<open>\<^verbatim>\<open>m_pos++; m_col++;\<close>\<close>

definition advance :: "Cursor \<Rightarrow> Cursor" where
  "advance c = c\<lparr>m_pos := m_pos c + 1, m_col := m_col c + 1\<rparr>"

definition advance_by :: "nat \<Rightarrow> Cursor \<Rightarrow> Cursor" where
  "advance_by n c = c\<lparr>m_pos := m_pos c + n, m_col := m_col c + n\<rparr>"

lemma char_at_end: "\<not> i < length txt \<Longrightarrow> char_at txt i = CHR 0x00"
  by (simp add: char_at_def)

lemma less_text_step: "i < length txt \<Longrightarrow> length txt - Suc i < length txt - i"
  by arith

subsection \<open>Whitespace, comments, identifiers\<close>

function parse_ws :: "string \<Rightarrow> Cursor \<Rightarrow> Cursor" where
  "parse_ws txt c =
     (let ch = char_at txt (m_pos c)
      in if ch = CHR '' '' \<or> ch = CHR 0x09 \<or> ch = CHR 0x0D then
           parse_ws txt (c\<lparr>m_pos := m_pos c + 1,
                           m_col := (if ch \<noteq> CHR 0x0D then m_col c + 1 else m_col c)\<rparr>)
         else if ch = CHR 0x0A then
           parse_ws txt (c\<lparr>m_pos := m_pos c + 1, m_line := m_line c + 1, m_col := 1\<rparr>)
         else c)"
  by pat_completeness auto
termination
  by (relation "measure (\<lambda>(txt, c). length txt - m_pos c)")
     (auto intro!: less_text_step simp: char_at_def split: if_splits)

declare parse_ws.simps [simp del]

text \<open>
  \<^verbatim>\<open>parse_comment\<close>: the loop advances first and then tests the new character.
\<close>

function parse_comment_loop :: "string \<Rightarrow> Cursor \<Rightarrow> Cursor" where
  "parse_comment_loop txt c =
     (let c1 = advance c;
          ch = char_at txt (m_pos c1)
      in if ch = CHR 0x0D \<or> ch = CHR 0x0A \<or> ch = CHR 0x00 then c1
         else parse_comment_loop txt c1)"
  by pat_completeness auto
termination
  by (relation "measure (\<lambda>(txt, c). length txt - m_pos c)")
     (auto simp: advance_def char_at_def split: if_splits)

declare parse_comment_loop.simps [simp del]

definition parse_comment :: "string \<Rightarrow> Cursor \<Rightarrow> Cursor" where
  "parse_comment txt c =
     (if char_at txt (m_pos c) \<noteq> CHR ''#'' then c else parse_comment_loop txt c)"

definition is_alpha :: "char \<Rightarrow> bool" where
  "is_alpha ch \<longleftrightarrow>
     (schar ch \<ge> schar CHR ''A'' \<and> schar ch \<le> schar CHR ''Z'') \<or>
     (schar ch \<ge> schar CHR ''a'' \<and> schar ch \<le> schar CHR ''z'')"

definition is_digit :: "char \<Rightarrow> bool" where
  "is_digit ch \<longleftrightarrow> schar ch \<ge> schar CHR ''0'' \<and> schar ch \<le> schar CHR ''9''"

lemma is_alpha_inside: "is_alpha (char_at txt i) \<Longrightarrow> i < length txt"
  by (rule ccontr) (simp add: char_at_end is_alpha_def schar_def uchar_def)

lemma is_digit_inside: "is_digit (char_at txt i) \<Longrightarrow> i < length txt"
  by (rule ccontr) (simp add: char_at_end is_digit_def schar_def uchar_def)

lemma underscore_inside: "char_at txt i = CHR ''_'' \<Longrightarrow> i < length txt"
  by (rule ccontr) (simp add: char_at_end)

lemma not_control_inside: "\<not> schar (char_at txt i) < schar CHR '' '' \<Longrightarrow> i < length txt"
  by (rule ccontr) (simp add: char_at_end schar_def uchar_def)

function parse_id_loop :: "string \<Rightarrow> Cursor \<Rightarrow> int \<Rightarrow> int \<times> Cursor" where
  "parse_id_loop txt c len =
     (let ch = char_at txt (m_pos c)
      in if ch = CHR ''_'' \<or> is_digit ch \<or> is_alpha ch then
           parse_id_loop txt (advance c) (len + 1)
         else (len, c))"
  by pat_completeness auto
termination
  by (relation "measure (\<lambda>(txt, c, len). length txt - m_pos c)")
     (auto intro!: less_text_step simp: advance_def
           intro: is_alpha_inside is_digit_inside underscore_inside)

declare parse_id_loop.simps [simp del]

text \<open>\<^verbatim>\<open>parse_id\<close>: returns the length, or -1 with the cursor untouched.\<close>

definition parse_id :: "string \<Rightarrow> Cursor \<Rightarrow> int \<times> Cursor" where
  "parse_id txt c =
     (let ch = char_at txt (m_pos c)
      in if \<not> is_alpha ch then (-1, c)
         else parse_id_loop txt (advance c) 1)"

subsection \<open>Literal strings\<close>

text \<open>
  The loop of \<^verbatim>\<open>parse_string\<close>, \<^verbatim>\<open>for (;; m_pos++, m_col++, len++)\<close>. The result
  is \<open>(True, len, cursor)\<close> at the closing quote and \<open>(False, _, _)\<close> at the
  \<^verbatim>\<open>break\<close>. The comparison \<^verbatim>\<open>ch < ' '\<close> is one of signed \<^verbatim>\<open>char\<close>s.
\<close>

function parse_string_loop :: "string \<Rightarrow> Cursor \<Rightarrow> int \<Rightarrow> bool \<Rightarrow> bool \<times> int \<times> Cursor" where
  "parse_string_loop txt c len esc_set =
     (let ch = char_at txt (m_pos c)
      in if schar ch < schar CHR '' '' then (False, len, c)
         else if ch = CHR 0x5C \<and> \<not> esc_set then
           parse_string_loop txt (advance c) (len + 1) True
         else if ch = CHR 0x22 \<and> \<not> esc_set then (True, len + 1, advance c)
         else parse_string_loop txt (advance c) (len + 1) False)"
  by pat_completeness auto
termination
  by (relation "measure (\<lambda>(txt, c, len, e). length txt - m_pos c)")
     (auto intro!: less_text_step simp: advance_def intro: not_control_inside)

declare parse_string_loop.simps [simp del]

text \<open>
  \<^verbatim>\<open>parse_string(std::vector<Elem> &elems)\<close>: the vector is passed in and returned.
  On success the token \<^verbatim>\<open>std::string(&m_text[m_pos - len], len)\<close> is pushed as a
  STRING element.
\<close>

definition parse_string :: "string \<Rightarrow> Cursor \<Rightarrow> Elem list \<Rightarrow> int \<times> Cursor \<times> Elem list" where
  "parse_string txt c elems =
     (if char_at txt (m_pos c) \<noteq> CHR 0x22 then (-1, c, elems)
      else case parse_string_loop txt (advance c) 1 False of
             (True, len, c1) \<Rightarrow>
               (len, c1, elems @ [Elem2 STRING (substr txt (m_pos c1 - nat len) (nat len))])
           | (False, len, c1) \<Rightarrow>
               (-1, c1\<lparr>m_pos := m_pos c, m_col := m_col c, m_line := m_line c\<rparr>, elems))"

subsection \<open>Escapes and decoding\<close>

text \<open>
  \<^verbatim>\<open>ch_class_reserve_chars = "!-[\\]^"\<close> and \<^verbatim>\<open>esc_chars = "!-[\\]^abfnrtv"\<close>.
  The source scans them up to the terminator.
\<close>

definition ch_class_reserve_chars :: string where
  "ch_class_reserve_chars = [CHR ''!'', CHR ''-'', CHR ''['', CHR 0x5C, CHR '']'', CHR ''^'']"

definition esc_chars :: string where
  "esc_chars = ch_class_reserve_chars @ ''abfnrtv''"

definition is_hex_char :: "char \<Rightarrow> bool" where
  "is_hex_char ch \<longleftrightarrow>
     (schar ch \<ge> schar CHR ''0'' \<and> schar ch \<le> schar CHR ''9'') \<or>
     (schar ch \<ge> schar CHR ''A'' \<and> schar ch \<le> schar CHR ''F'') \<or>
     (schar ch \<ge> schar CHR ''a'' \<and> schar ch \<le> schar CHR ''f'')"

text \<open>
  \<^verbatim>\<open>hex_to_int32(const char *str, int32_t len)\<close>: \<^verbatim>\<open>val\<close> is an \<^verbatim>\<open>int32_t\<close>
  shifted left by 4 for every digit; the model wraps at 32 bits and reads the result as
  two's complement.
\<close>

fun hex_to_int32_loop :: "string \<Rightarrow> nat \<Rightarrow> nat list \<Rightarrow> 32 word \<Rightarrow> 32 word option" where
  "hex_to_int32_loop str p [] val = Some val"
| "hex_to_int32_loop str p (i # is) val =
     (let val1 = push_bit 4 val;
          ch = char_at str (p + i)
      in if schar ch \<ge> schar CHR ''0'' \<and> schar ch \<le> schar CHR ''9'' then
           hex_to_int32_loop str p is (val1 + word_of_int (schar ch - schar CHR ''0''))
         else if schar ch \<ge> schar CHR ''A'' \<and> schar ch \<le> schar CHR ''F'' then
           hex_to_int32_loop str p is (val1 + word_of_int (schar ch - schar CHR ''A'' + 10))
         else if schar ch \<ge> schar CHR ''a'' \<and> schar ch \<le> schar CHR ''f'' then
           hex_to_int32_loop str p is (val1 + word_of_int (schar ch - schar CHR ''a'' + 10))
         else None)"

definition hex_to_int32 :: "string \<Rightarrow> nat \<Rightarrow> nat \<Rightarrow> int" where
  "hex_to_int32 str p len =
     (if len \<noteq> 4 \<and> len \<noteq> 8 then -1
      else case hex_to_int32_loop str p [0 ..< len] 0 of
             None \<Rightarrow> -1
           | Some val \<Rightarrow> sint val)"

text \<open>\<^verbatim>\<open>esc_to_int32(const char *str)\<close>, the chain of comparisons in its order.\<close>

definition esc_to_int32 :: "string \<Rightarrow> int" where
  "esc_to_int32 str =
     (if char_at str 0 \<noteq> CHR 0x5C then -1
      else let ch = char_at str 1
           in if ch = CHR ''a'' then 0x7
              else if ch = CHR ''b'' then 0x8
              else if ch = CHR ''f'' then 0xc
              else if ch = CHR ''n'' then 0xa
              else if ch = CHR ''r'' then 0xd
              else if ch = CHR ''t'' then 0x9
              else if ch = CHR ''v'' then 0xb
              else if ch = CHR ''!'' then 0x21
              else if ch = CHR 0x22 then 0x22
              else if ch = CHR ''-'' then 0x2d
              else if ch = CHR ''['' then 0x5b
              else if ch = CHR 0x5C then 0x5c
              else if ch = CHR '']'' then 0x5d
              else if ch = CHR ''^'' then 0x5e
              else if ch = CHR ''u'' then hex_to_int32 str 2 4
              else if ch = CHR ''U'' then hex_to_int32 str 2 8
              else -1)"

text \<open>
  \<^verbatim>\<open>decode_to_int32(bool *escaped, const char *str)\<close>: the pair of the flag written to
  \<^verbatim>\<open>*escaped\<close> and the returned code point (-1 on failure).
\<close>

definition decode_to_int32 :: "string \<Rightarrow> bool \<times> int" where
  "decode_to_int32 str =
     (if char_at str 0 = CHR 0x5C then (True, esc_to_int32 str)
      else case utf8_to_int32 str 0 of
             Some (val, len_item) \<Rightarrow> (False, if len_item > 0 then val else -1)
           | None \<Rightarrow> (False, -1))"

subsection \<open>Characters and character classes\<close>

text \<open>
  \<^verbatim>\<open>for (; i < n && is_hex_char(m_text[m_pos]); i++, m_pos++, m_col++);\<close>
  returns the final \<open>i\<close> and cursor.
\<close>

function hex_run :: "string \<Rightarrow> Cursor \<Rightarrow> nat \<Rightarrow> nat \<Rightarrow> nat \<times> Cursor" where
  "hex_run txt c i n =
     (if i < n \<and> is_hex_char (char_at txt (m_pos c)) then hex_run txt (advance c) (i + 1) n
      else (i, c))"
  by pat_completeness auto
termination
  by (relation "measure (\<lambda>(txt, c, i, n). n - i)") auto

declare hex_run.simps [simp del]

text \<open>
  \<^verbatim>\<open>parse_char(Elem &elem)\<close>: the element is passed in and returned. No path of this
  function saves or restores the cursor; a failure after the backslash returns with the
  cursor where it stands.
\<close>

definition parse_char :: "string \<Rightarrow> Cursor \<Rightarrow> Elem \<Rightarrow> int \<times> Cursor \<times> Elem" where
  "parse_char txt c elem =
     (let ch = char_at txt (m_pos c)
      in if schar ch \<ge> 0 \<and> schar ch < schar CHR '' '' then (-1, c, elem)
         else if schar ch < 0 then
           (let len = parse_utf8_char txt (m_pos c)
            in if len < 0 then (-1, c, elem)
               else (len, advance_by (nat len) c,
                     push_text elem (substr txt (m_pos c) (nat len))))
         else
           (let is_esc = (ch = CHR 0x5C);
                c1 = (if is_esc then advance c else c);
                ch1 = (if is_esc then char_at txt (m_pos c1) else ch)
            in if schar ch1 \<ge> 0 \<and> schar ch1 < schar CHR '' '' then (-1, c1, elem)
               else if \<not> is_esc then
                 (1, advance c1, push_text elem (substr txt (m_pos c1) 1))
               else if ch1 \<in> set esc_chars then
                 (2, advance c1, push_text elem (substr txt (m_pos (advance c1) - 2) 2))
               else if ch1 = CHR ''u'' then
                 (case hex_run txt (advance c1) 0 4 of
                    (i, c2) \<Rightarrow>
                      if i < 4 then (-1, c2, elem)
                      else (6, c2, push_text elem (substr txt (m_pos c2 - 6) 6)))
               else if ch1 = CHR ''U'' then
                 (case hex_run txt (advance c1) 0 8 of
                    (i, c2) \<Rightarrow>
                      if i < 8 then (-1, c2, elem)
                      else (10, c2, push_text elem (substr txt (m_pos c2 - 10) 10)))
               else (-1, c1, elem)))"

text \<open>
  \<^verbatim>\<open>elem.text()[i]\<close>. Out of range the source reads behind the vector; the model gives
  the empty string there. \<^verbatim>\<open>parse_ch_class\<close> pushes \<^verbatim>\<open>"["\<close> first, so the reads
  at indices 1 and 3 below are in range when it is the caller.
\<close>

definition text_at :: "Elem \<Rightarrow> nat \<Rightarrow> string" where
  "text_at e i = (if i < length (m_text e) then m_text e ! i else [])"

text \<open>
  \<^verbatim>\<open>parse_ch_class_range(Elem &elem)\<close>. The order check reads the tokens at the fixed
  indices 1 and 3 of the element. As in \<^verbatim>\<open>parse_char\<close>, the cursor is not restored on
  failure. The messages to standard error are left out.
\<close>

definition parse_ch_class_range :: "string \<Rightarrow> Cursor \<Rightarrow> Elem \<Rightarrow> int \<times> Cursor \<times> Elem" where
  "parse_ch_class_range txt c elem =
     (if char_at txt (m_pos c) = CHR '']'' then (-1, c, elem)
      else case parse_char txt c elem of
        (len_char, c1, elem1) \<Rightarrow>
          if len_char < 0 then (-1, c1, elem1)
          else if len_char = 1 \<and>
                  char_at (text_at elem1 (length (m_text elem1) - 1)) 0
                    \<in> set ch_class_reserve_chars
          then (-1, c1, elem1)
          else if char_at txt (m_pos c1) \<noteq> CHR ''-'' then (len_char, c1, elem1)
          else
            (let elem2 = push_text elem1 (substr txt (m_pos c1) 1);
                 c2 = advance c1;
                 len = len_char + 1;
                 ch = char_at txt (m_pos c2)
             in if ch = CHR '']'' then (-1, c2, elem2)
                else case parse_char txt c2 elem2 of
                  (len_char2, c3, elem3) \<Rightarrow>
                    if len_char2 < 0 then (-1, c3, elem3)
                    else if len_char2 = 1 \<and> ch \<in> set ch_class_reserve_chars
                    then (-1, c3, elem3)
                    else if snd (decode_to_int32 (text_at elem3 1))
                              \<ge> snd (decode_to_int32 (text_at elem3 3))
                    then (-1, c3, elem3)
                    else (len + len_char2, c3, elem3)))"

lemma hex_run_mono: "hex_run t c i n = (j, c1) \<Longrightarrow> m_pos c \<le> m_pos c1"
proof (induction t c i n rule: hex_run.induct)
  case (1 t c i n)
  show ?case
  proof (cases "i < n \<and> is_hex_char (char_at t (m_pos c))")
    case True
    with "1.prems" have "hex_run t (advance c) (i + 1) n = (j, c1)"
      by (simp add: hex_run.simps [of _ c])
    with "1.IH" True have "m_pos (advance c) \<le> m_pos c1" by simp
    then show ?thesis by (simp add: advance_def)
  next
    case False
    with "1.prems" show ?thesis by (simp add: hex_run.simps [of _ c])
  qed
qed

lemma parse_utf8_char_range: "parse_utf8_char txt p = -1 \<or> 1 \<le> parse_utf8_char txt p"
  by (simp add: parse_utf8_char_def Let_def)

lemma parse_char_progress:
  assumes "parse_char txt c e = (n, c1, e1)" and "0 \<le> n"
  shows "m_pos c < m_pos c1" and "m_pos c < length txt"
proof -
  let ?ch = "char_at txt (m_pos c)"
  from assms have ok: "\<not> (schar ?ch \<ge> 0 \<and> schar ?ch < schar CHR '' '')"
    by (auto simp: parse_char_def Let_def)
  show "m_pos c < length txt"
  proof (rule ccontr)
    assume "\<not> m_pos c < length txt"
    then have "?ch = CHR 0x00" by (rule char_at_end)
    with ok show False by (simp add: schar_def uchar_def)
  qed
  show "m_pos c < m_pos c1"
  proof (cases "schar ?ch < 0")
    case True
    with assms ok parse_utf8_char_range [of "txt" "m_pos c"] show ?thesis
      by (auto simp: parse_char_def Let_def advance_by_def split: if_splits)
  next
    case False
    with assms ok show ?thesis
      by (auto simp: parse_char_def Let_def advance_def
               split: if_splits prod.splits dest!: hex_run_mono)
  qed
qed

lemma parse_ch_class_range_progress:
  assumes "parse_ch_class_range txt c e = (n, c1, e1)" and "n \<noteq> -1"
  shows "m_pos c < m_pos c1" and "m_pos c < length txt"
proof -
  obtain k c2 e2 where pc: "parse_char txt c e = (k, c2, e2)"
    by (cases "parse_char txt c e") auto
  from assms pc have k: "0 \<le> k"
    by (auto simp: parse_ch_class_range_def Let_def split: if_splits)
  from parse_char_progress [OF pc k] show "m_pos c < length txt" by simp
  from parse_char_progress [OF pc k] have first: "m_pos c < m_pos c2" by simp
  show "m_pos c < m_pos c1"
  proof (cases "c1 = c2")
    case True
    with first show ?thesis by simp
  next
    case False
    with assms pc obtain k3 e3 where
      pc2: "parse_char txt (advance c2) (push_text e2 (substr txt (m_pos c2) 1)) = (k3, c1, e3)"
      and k3: "0 \<le> k3"
      by (auto simp: parse_ch_class_range_def Let_def split: if_splits prod.splits)
    from parse_char_progress [OF pc2 k3] first show ?thesis
      by (simp add: advance_def)
  qed
qed

text \<open>
  The loop "0 or more additional ranges" of \<^verbatim>\<open>parse_ch_class\<close>. When a range fails,
  the cursor goes back to the start of that range and \<^verbatim>\<open>valid_range_elements\<close>
  tokens (0 or 1, the \<^verbatim>\<open>"!"\<close>) are popped.
\<close>

function parse_ch_class_loop :: "string \<Rightarrow> Cursor \<Rightarrow> Elem \<Rightarrow> int \<Rightarrow> int \<times> Cursor \<times> Elem" where
  "parse_ch_class_loop txt c elem len =
     (let ch = char_at txt (m_pos c)
      in if ch = CHR '']'' then (len, c, elem)
         else
           (let neg = (ch = CHR ''!'');
                elem1 = (if neg then push_text elem ''!'' else elem);
                c1 = (if neg then advance c else c);
                len_range = (if neg then 1 else 0)
            in case parse_ch_class_range txt c1 elem1 of
                 (len_br, c2, elem2) \<Rightarrow>
                   if len_br = -1 then
                     (len, c2\<lparr>m_pos := m_pos c, m_col := m_col c, m_line := m_line c\<rparr>,
                      if neg then pop_text elem2 else elem2)
                   else parse_ch_class_loop txt c2 elem2 (len + len_range + len_br)))"
  by pat_completeness auto
termination
proof (relation "measure (\<lambda>(txt, c, elem, len). length txt - m_pos c)")
  show "wf (measure (\<lambda>(txt, c, elem, len). length txt - m_pos c))" by simp
next
  fix t c elem len ch neg elem1 c1 len_range x len_br y c2 elem2
  assume c1: "c1 = (if neg then advance c else c)"
    and r: "(len_br, y) = parse_ch_class_range t c1 elem1" "(c2, elem2) = y"
    and ok: "len_br \<noteq> -1"
  from r have "parse_ch_class_range t c1 elem1 = (len_br, c2, elem2)" by simp
  from parse_ch_class_range_progress [OF this ok] c1
  have "m_pos c < m_pos c2" "m_pos c < length t"
    by (auto simp: advance_def split: if_splits)
  then show "((t, c2, elem2, len + len_range + len_br), t, c, elem, len)
               \<in> measure (\<lambda>(txt, c, elem, len). length txt - m_pos c)"
    by simp
qed

declare parse_ch_class_loop.simps [simp del]

text \<open>\<^verbatim>\<open>parse_ch_class(std::vector<Elem> &elems)\<close>.\<close>

definition parse_ch_class :: "string \<Rightarrow> Cursor \<Rightarrow> Elem list \<Rightarrow> int \<times> Cursor \<times> Elem list" where
  "parse_ch_class txt c elems =
     (if char_at txt (m_pos c) \<noteq> CHR ''['' then (-1, c, elems)
      else
        (let elem0 = push_text (Elem1 CH_CLASS) ''['';
             c1 = advance c;
             neg_all = (char_at txt (m_pos c1) = CHR ''^'');
             elem1 = (if neg_all then push_text elem0 ''^'' else elem0);
             c2 = (if neg_all then advance c1 else c1);
             len = (if neg_all then 2 else 1)
         in case parse_ch_class_range txt c2 elem1 of
              (len_br, c3, elem3) \<Rightarrow>
                if len_br = -1 then
                  (-1, c3\<lparr>m_pos := m_pos c, m_col := m_col c, m_line := m_line c\<rparr>, elems)
                else case parse_ch_class_loop txt c3 elem3 (len + len_br) of
                  (len4, c4, elem4) \<Rightarrow>
                    if char_at txt (m_pos c4) \<noteq> CHR '']'' \<or> len4 \<le> 0 then
                      (-1, c4\<lparr>m_pos := m_pos c, m_col := m_col c, m_line := m_line c\<rparr>,
                       elems)
                    else (len4 + 1, advance c4, elems @ [push_text elem4 '']''])))"

section \<open>The grammar parser\<close>

text \<open>
  \<^verbatim>\<open>parse_alts\<close>, \<^verbatim>\<open>parse_alt\<close>, \<^verbatim>\<open>parse_element\<close> and \<^verbatim>\<open>parse_group\<close> call each
  other, and the first three loop. Their models take fuel: every call and every loop
  iteration uses one unit, and \<open>None\<close> means that the fuel ran out. The vector
  \<^verbatim>\<open>elems\<close> that the source takes by reference is passed in and returned.
\<close>

text \<open>
  The tail of the one-pass block in \<^verbatim>\<open>parse_element\<close>, after \<^verbatim>\<open>parse_group\<close> has
  not matched: \<^verbatim>\<open>parse_id\<close>, \<^verbatim>\<open>parse_ch_class\<close>, \<^verbatim>\<open>parse_string\<close> in this order.
  The result is the amount added to \<^verbatim>\<open>len\<close>, the last \<^verbatim>\<open>len_item\<close>, the cursor
  and the vector.
\<close>

definition parse_item_rest ::
  "string \<Rightarrow> Cursor \<Rightarrow> Elem list \<Rightarrow> int \<times> int \<times> Cursor \<times> Elem list" where
  "parse_item_rest txt c elems =
     (case parse_id txt c of
        (len_id, c1) \<Rightarrow>
          if len_id > 0 then
            (len_id, len_id, c1,
             elems @ [Elem2 NAME (substr txt (m_pos c1 - nat len_id) (nat len_id))])
          else case parse_ch_class txt c1 elems of
            (len_cc, c2, elems2) \<Rightarrow>
              if len_cc > 0 then (len_cc, len_cc, c2, elems2)
              else case parse_string txt c2 elems2 of
                (len_str, c3, elems3) \<Rightarrow>
                  if len_str \<ge> 0 then (len_str, len_str, c3, elems3)
                  else (0, len_str, c3, elems3))"

text \<open>
  \<^verbatim>\<open>elems[elems.size() - 1].quantifier() = qt;\<close> On an empty vector the source writes
  out of range; the model leaves the empty vector as it is.
\<close>

definition set_last_quantifier :: "QuantifierType \<Rightarrow> Elem list \<Rightarrow> Elem list" where
  "set_last_quantifier qt elems =
     (if elems = [] then []
      else butlast elems @
           [Elem (m_type (last elems)) (m_text (last elems)) qt (m_sub_elems (last elems))])"

text \<open>
  The optional quantifier after an item: the new cursor, vector and \<^verbatim>\<open>len\<close>.
\<close>

definition parse_quantifier ::
  "string \<Rightarrow> Cursor \<Rightarrow> Elem list \<Rightarrow> int \<Rightarrow> Cursor \<times> Elem list \<times> int" where
  "parse_quantifier txt c elems len =
     (let ch = char_at txt (m_pos c)
      in if ch = CHR ''?'' \<or> ch = CHR ''*'' \<or> ch = CHR ''+'' then
           (let qt = (if ch = CHR ''?'' then ZERO_ONE
                      else if ch = CHR ''*'' then ZERO_PLUS else ONE_PLUS)
            in (parse_ws txt (advance c), set_last_quantifier qt elems, len + 1))
         else (c, elems, len))"

text \<open>
  In \<^verbatim>\<open>parse_group\<close> the three failure branches assign \<^verbatim>\<open>pos_prev = m_pos\<close>,
  \<^verbatim>\<open>col_prev = m_col\<close>, \<^verbatim>\<open>line_prev = m_line\<close> to locals that are not read again,
  so the cursor is returned as it stands.

  In \<^verbatim>\<open>parse_alts\<close> the local \<^verbatim>\<open>trailing_bar\<close> has no initial value; it is read only
  when \<^verbatim>\<open>len > 0\<close>, and then it has been assigned. The model starts it at \<open>False\<close>.
\<close>

function (sequential) parse_alts_loop ::
      "nat \<Rightarrow> string \<Rightarrow> Cursor \<Rightarrow> Elem list \<Rightarrow> int \<Rightarrow> bool \<Rightarrow> (int \<times> Cursor \<times> Elem list) option"
  and parse_alt_loop ::
      "nat \<Rightarrow> string \<Rightarrow> Cursor \<Rightarrow> Elem list \<Rightarrow> int \<Rightarrow> (int \<times> Cursor \<times> Elem list) option"
  and parse_element_loop ::
      "nat \<Rightarrow> string \<Rightarrow> Cursor \<Rightarrow> Elem list \<Rightarrow> int \<Rightarrow> (int \<times> Cursor \<times> Elem list) option"
  and parse_group ::
      "nat \<Rightarrow> string \<Rightarrow> Cursor \<Rightarrow> Elem list \<Rightarrow> (int \<times> Cursor \<times> Elem list) option"
where
  "parse_alts_loop 0 txt c elems len trailing_bar = None"
| "parse_alts_loop (Suc k) txt c elems len trailing_bar =
     (if char_at txt (m_pos c) \<noteq> CHR 0x00 then
        (case parse_alt_loop k txt c [] 0 of
           None \<Rightarrow> None
         | Some (len_el, c1, sub) \<Rightarrow>
             if len_el = -1 then
               Some (if len \<le> 0 \<or> trailing_bar then -1 else len, c1, elems)
             else
               (let len1 = len + len_el;
                    elems1 = elems @ [Elem ALT [] ONE sub];
                    c2 = parse_ws txt c1
                in if char_at txt (m_pos c2) = CHR ''|'' then
                     parse_alts_loop k txt (parse_ws txt (advance c2)) elems1 (len1 + 1) True
                   else Some (if len1 \<le> 0 then -1 else len1, c2, elems1)))
      else Some (if len \<le> 0 \<or> trailing_bar then -1 else len, c, elems))"
| "parse_alt_loop 0 txt c elems len = None"
| "parse_alt_loop (Suc k) txt c elems len =
     (if char_at txt (m_pos c) \<noteq> CHR 0x00 then
        (case parse_element_loop k txt c elems 0 of
           None \<Rightarrow> None
         | Some (len_el, c1, elems1) \<Rightarrow>
             if len_el \<le> 0 then Some (if len \<le> 0 then -1 else len, c1, elems1)
             else parse_alt_loop k txt (parse_ws txt c1) elems1 (len + len_el))
      else Some (if len \<le> 0 then -1 else len, c, elems))"
| "parse_element_loop 0 txt c elems len = None"
| "parse_element_loop (Suc k) txt c elems len =
     (if char_at txt (m_pos c) \<noteq> CHR '';'' \<and> char_at txt (m_pos c) \<noteq> CHR 0x00 then
        (case parse_group k txt c elems of
           None \<Rightarrow> None
         | Some (len_grp, c1, elems1) \<Rightarrow>
             (case (if len_grp > 0 then (len_grp, len_grp, c1, elems1)
                    else parse_item_rest txt c1 elems1) of
                (added, len_item, c2, elems2) \<Rightarrow>
                  if len + added \<le> 0 then Some (-1, c2, elems2)
                  else case parse_quantifier txt (parse_ws txt c2) elems2 (len + added) of
                    (c3, elems3, len3) \<Rightarrow>
                      if len_item \<le> 0 then Some (len3, c3, elems3)
                      else parse_element_loop k txt c3 elems3 len3))
      else Some (len, c, elems))"
| "parse_group 0 txt c elems = None"
| "parse_group (Suc k) txt c elems =
     (if char_at txt (m_pos c) \<noteq> CHR ''('' then Some (-1, c, elems)
      else case parse_alts_loop k txt (parse_ws txt (advance c)) [] 0 False of
        None \<Rightarrow> None
      | Some (len_alts, c1, sub) \<Rightarrow>
          if len_alts < 0 then Some (-1, c1, elems)
          else
            (let c2 = parse_ws txt c1
             in if char_at txt (m_pos c2) \<noteq> CHR '')'' then Some (-1, c2, elems)
                else Some (1 + len_alts + 1, advance c2, elems @ [Elem GROUP [] ONE sub])))"
  by pat_completeness auto
termination
  by (relation "measure (\<lambda>x. case x of
                   Inl (Inl (k, _)) \<Rightarrow> k | Inl (Inr (k, _)) \<Rightarrow> k
                 | Inr (Inl (k, _)) \<Rightarrow> k | Inr (Inr (k, _)) \<Rightarrow> k)") auto

definition parse_alts ::
  "nat \<Rightarrow> string \<Rightarrow> Cursor \<Rightarrow> Elem list \<Rightarrow> (int \<times> Cursor \<times> Elem list) option" where
  "parse_alts k txt c elems = parse_alts_loop k txt c elems 0 False"

definition parse_alt ::
  "nat \<Rightarrow> string \<Rightarrow> Cursor \<Rightarrow> Elem list \<Rightarrow> (int \<times> Cursor \<times> Elem list) option" where
  "parse_alt k txt c elems = parse_alt_loop k txt c elems 0"

definition parse_element ::
  "nat \<Rightarrow> string \<Rightarrow> Cursor \<Rightarrow> Elem list \<Rightarrow> (int \<times> Cursor \<times> Elem list) option" where
  "parse_element k txt c elems = parse_element_loop k txt c elems 0"

subsection \<open>The rule map\<close>

text \<open>The constructors \<^verbatim>\<open>Rule()\<close> and \<^verbatim>\<open>Rule(std::string &name)\<close>.\<close>

definition Rule0 :: Rule where
  "Rule0 = \<lparr>m_name = [], m_mod = [], m_elems = []\<rparr>"

definition Rule1 :: "string \<Rightarrow> Rule" where
  "Rule1 n = \<lparr>m_name = n, m_mod = [], m_elems = []\<rparr>"

text \<open>\<^verbatim>\<open>m[k] = v\<close> on a \<^verbatim>\<open>std::map\<close>: replace the entry, or insert it in key order.\<close>

fun map_assign :: "string \<Rightarrow> 'v \<Rightarrow> (string \<times> 'v) list \<Rightarrow> (string \<times> 'v) list" where
  "map_assign k v [] = [(k, v)]"
| "map_assign k v ((k1, v1) # m) =
     (if k = k1 then (k, v) # m
      else if k < k1 then (k, v) # (k1, v1) # m
      else (k1, v1) # map_assign k v m)"

text \<open>
  \<^verbatim>\<open>rules()[k]\<close> read as a value: \<^verbatim>\<open>operator[]\<close> inserts a default-constructed
  \<^verbatim>\<open>Rule\<close> when the key is absent. The result is the rule and the map afterwards.
\<close>

definition map_index :: "(string \<times> Rule) list \<Rightarrow> string \<Rightarrow> Rule \<times> (string \<times> Rule) list" where
  "map_index m k =
     (case map_of m k of
        Some r \<Rightarrow> (r, m)
      | None \<Rightarrow> (Rule0, map_assign k Rule0 m))"

text \<open>\<^verbatim>\<open>rules()[k].field() = ...\<close>: index, then write through the reference.\<close>

definition map_modify ::
  "string \<Rightarrow> (Rule \<Rightarrow> Rule) \<Rightarrow> (string \<times> Rule) list \<Rightarrow> (string \<times> Rule) list" where
  "map_modify k f m = (case map_index m k of (r, m1) \<Rightarrow> map_assign k (f r) m1)"

subsection \<open>Rules and the grammar\<close>

text \<open>The messages the generator writes to standard error that the model keeps.\<close>

datatype Message = DuplicateRule string | UndefinedRule string | UnreachableRule string

lemma parse_ws_mono: "m_pos c \<le> m_pos (parse_ws t c)"
proof (induction t c rule: parse_ws.induct)
  case (1 t c)
  let ?ch = "char_at t (m_pos c)"
  consider (blank) "?ch = CHR '' '' \<or> ?ch = CHR 0x09 \<or> ?ch = CHR 0x0D"
    | (newline) "\<not> (?ch = CHR '' '' \<or> ?ch = CHR 0x09 \<or> ?ch = CHR 0x0D)" "?ch = CHR 0x0A"
    | (other) "\<not> (?ch = CHR '' '' \<or> ?ch = CHR 0x09 \<or> ?ch = CHR 0x0D)" "?ch \<noteq> CHR 0x0A"
    by blast
  then show ?case
  proof cases
    case blank
    from "1.IH"(1) [OF refl blank] blank show ?thesis
      by (subst parse_ws.simps) (simp add: Let_def)
  next
    case newline
    from "1.IH"(2) [OF refl newline] newline show ?thesis
      by (subst parse_ws.simps) (simp add: Let_def)
  next
    case other
    then show ?thesis by (subst parse_ws.simps) (simp add: Let_def)
  qed
qed

lemma parse_comment_loop_mono: "m_pos c \<le> m_pos (parse_comment_loop t c)"
proof (induction t c rule: parse_comment_loop.induct)
  case (1 t c)
  let ?c1 = "advance c"
  let ?ch = "char_at t (m_pos ?c1)"
  show ?case
  proof (cases "?ch = CHR 0x0D \<or> ?ch = CHR 0x0A \<or> ?ch = CHR 0x00")
    case True
    then show ?thesis
      by (subst parse_comment_loop.simps) (simp add: Let_def advance_def)
  next
    case False
    from "1.IH" [OF refl refl False] have "m_pos ?c1 \<le> m_pos (parse_comment_loop t ?c1)" .
    with False show ?thesis
      by (subst parse_comment_loop.simps) (simp add: Let_def advance_def)
  qed
qed

lemma parse_comment_mono: "m_pos c \<le> m_pos (parse_comment t c)"
  by (simp add: parse_comment_def parse_comment_loop_mono)

text \<open>
  \<^verbatim>\<open>do { m_pos_prev = m_pos; parse_comment(); parse_ws(); }
  while (m_text[m_pos] != '\0' && m_pos_prev != m_pos);\<close>
\<close>

function skip_comments :: "string \<Rightarrow> Cursor \<Rightarrow> Cursor" where
  "skip_comments txt c =
     (let c1 = parse_ws txt (parse_comment txt c)
      in if char_at txt (m_pos c1) \<noteq> CHR 0x00 \<and> m_pos c \<noteq> m_pos c1 then skip_comments txt c1
         else c1)"
  by pat_completeness auto
termination
proof (relation "measure (\<lambda>(txt, c). length txt - m_pos c)")
  show "wf (measure (\<lambda>(txt, c). length txt - m_pos c))" by simp
next
  fix t c c1
  assume c1: "c1 = parse_ws t (parse_comment t c)"
    and more: "char_at t (m_pos c1) \<noteq> CHR 0x00 \<and> m_pos c \<noteq> m_pos c1"
  from c1 have "m_pos c \<le> m_pos c1"
    using parse_ws_mono [of "parse_comment t c" t] parse_comment_mono [of c t] by simp
  moreover from more have "m_pos c1 < length t"
    by (auto simp: char_at_def split: if_splits)
  ultimately have "length t - m_pos c1 < length t - m_pos c"
    using more by arith
  then show "((t, c1), t, c) \<in> measure (\<lambda>(txt, c). length txt - m_pos c)"
    by simp
qed

declare skip_comments.simps [simp del]

text \<open>
  \<^verbatim>\<open>parse_rule(ASTNode &node_w)\<close>. The state is the cursor and \<^verbatim>\<open>m_grammar\<close>; the
  result is the returned flag, the state and the messages written. The reference
  \<^verbatim>\<open>m_grammar.rules()[rule_name].elems()\<close> given to \<^verbatim>\<open>parse_alts\<close> is a read of the
  vector before the call and a write of it after.
\<close>

definition parse_rule ::
  "nat \<Rightarrow> string \<Rightarrow> Cursor \<Rightarrow> Grammar \<Rightarrow> (bool \<times> Cursor \<times> Grammar \<times> Message list) option" where
  "parse_rule k txt c g =
     (case parse_id txt (parse_ws txt c) of
        (len_name, c1) \<Rightarrow>
          if len_name \<le> 0 then Some (False, c1, g, [])
          else
            (let rule_name = substr txt (m_pos c1 - nat len_name) (nat len_name);
                 g1 = (if m_rule_root g = [] then g\<lparr>m_rule_root := rule_name\<rparr> else g)
             in if map_of (m_rules g1) rule_name \<noteq> None then
                  Some (False, c1, g1, [DuplicateRule rule_name])
                else
                  (let g2 = g1\<lparr>m_rules := map_assign rule_name (Rule1 rule_name) (m_rules g1)\<rparr>
                   in case parse_id txt (parse_ws txt c1) of
                     (len_mod, c2) \<Rightarrow>
                       (let rule_mod = substr txt (m_pos c2 - nat len_mod) (nat len_mod)
                        in if len_mod > 0 \<and> rule_mod \<noteq> ''discard'' \<and> rule_mod \<noteq> ''inline''
                              \<and> rule_mod \<noteq> ''mergeup''
                           then Some (False, c2, g2, [])
                           else
                             (let g3 = (if len_mod > 0 then
                                          g2\<lparr>m_rules := map_modify rule_name
                                                (\<lambda>r. r\<lparr>m_mod := rule_mod\<rparr>) (m_rules g2)\<rparr>
                                        else g2);
                                  c3 = parse_ws txt c2
                              in if char_at txt (m_pos c3) \<noteq> CHR '':'' then Some (False, c3, g3, [])
                                 else
                                   (case map_index (m_rules g3) rule_name of
                                      (r, rules4) \<Rightarrow>
                                        (case parse_alts k txt (parse_ws txt (advance c3)) (m_elems r) of
                                           None \<Rightarrow> None
                                         | Some (len_alts, c4, elems) \<Rightarrow>
                                             (let g4 = g3\<lparr>m_rules := map_assign rule_name
                                                           (r\<lparr>m_elems := elems\<rparr>) rules4\<rparr>
                                              in if len_alts = -1 then Some (False, c4, g4, [])
                                                 else
                                                   (let c5 = parse_ws txt c4
                                                    in if char_at txt (m_pos c5) \<noteq> CHR '';''
                                                       then Some (False, c5, g4, [])
                                                       else Some (True,
                                                              skip_comments txt
                                                                (parse_ws txt (advance c5)),
                                                              g4, []))))))))))"

text \<open>
  \<^verbatim>\<open>parse_grammar(ASTNode &node_w, const char *text_r)\<close>. The loop over the rules runs
  while the cursor is not at the terminator; one unit of fuel per rule.
\<close>

fun parse_grammar_loop ::
  "nat \<Rightarrow> string \<Rightarrow> Cursor \<Rightarrow> Grammar \<Rightarrow> Message list
     \<Rightarrow> (bool \<times> Cursor \<times> Grammar \<times> Message list) option" where
  "parse_grammar_loop k txt c g msgs =
     (if char_at txt (m_pos c) = CHR 0x00 then Some (True, c, g, msgs)
      else case k of
        0 \<Rightarrow> None
      | Suc j \<Rightarrow>
          (case parse_rule j txt c g of
             None \<Rightarrow> None
           | Some (ok, c1, g1, msgs1) \<Rightarrow>
               if \<not> ok then Some (False, c1, g1, msgs @ msgs1)
               else parse_grammar_loop j txt c1 g1 (msgs @ msgs1)))"

declare parse_grammar_loop.simps [simp del]

definition parse_grammar ::
  "nat \<Rightarrow> string \<Rightarrow> Cursor \<Rightarrow> Grammar \<Rightarrow> (bool \<times> Cursor \<times> Grammar \<times> Message list) option" where
  "parse_grammar k txt c g = parse_grammar_loop k txt (skip_comments txt (parse_ws txt c)) g []"

text \<open>The members of a fresh \<^verbatim>\<open>ParseGen\<close>: cursor (0, 1, 1) and a cleared grammar.\<close>

definition cursor_init :: Cursor where
  "cursor_init = \<lparr>m_pos = 0, m_line = 1, m_col = 1\<rparr>"

definition grammar_init :: Grammar where
  "grammar_init = \<lparr>m_rules = [], m_rule_root = []\<rparr>"

section \<open>The grammar validator\<close>

text \<open>
  \<^verbatim>\<open>std::map<std::string, bool>\<close> is used as a set of names (\<^verbatim>\<open>to_visit\<close>,
  \<^verbatim>\<open>to_visit_new\<close>, \<^verbatim>\<open>visited\<close>): a list of keys in key order.
  \<open>key_insert\<close> is \<^verbatim>\<open>m[k] = true\<close>.
\<close>

fun key_insert :: "string \<Rightarrow> string list \<Rightarrow> string list" where
  "key_insert k [] = [k]"
| "key_insert k (k1 # ks) =
     (if k = k1 then k1 # ks
      else if k < k1 then k # k1 # ks
      else k1 # key_insert k ks)"

text \<open>
  \<^verbatim>\<open>elem.text()[0]\<close>; on an empty vector the source reads out of range and the model
  gives the empty string.
\<close>

definition first_text :: "string list \<Rightarrow> string" where
  "first_text txts = (case txts of [] \<Rightarrow> [] | s # _ \<Rightarrow> s)"

text \<open>
  \<^verbatim>\<open>check_rule_elems(elem, to_visit, to_visit_new, visited)\<close> returns the new
  \<^verbatim>\<open>to_visit_new\<close>. \<open>check_sub_elems\<close> is its loop over a vector of elements; the same
  loop runs over the elements of a rule in \<^verbatim>\<open>check_rules\<close>.
\<close>

fun check_rule_elems :: "Elem \<Rightarrow> string list \<Rightarrow> string list \<Rightarrow> string list \<Rightarrow> string list"
  and check_sub_elems :: "Elem list \<Rightarrow> string list \<Rightarrow> string list \<Rightarrow> string list \<Rightarrow> string list"
where
  "check_rule_elems (Elem t txts q subs) to_visit to_visit_new visited =
     check_sub_elems subs to_visit
       (if t = NAME \<and> first_text txts \<notin> set to_visit \<and> first_text txts \<notin> set visited
        then key_insert (first_text txts) to_visit_new else to_visit_new)
       visited"
| "check_sub_elems [] to_visit to_visit_new visited = to_visit_new"
| "check_sub_elems (e # es) to_visit to_visit_new visited =
     check_sub_elems es to_visit (check_rule_elems e to_visit to_visit_new visited) visited"

text \<open>
  The state of \<^verbatim>\<open>check_rules\<close>: \<^verbatim>\<open>visited\<close>, the rule map of \<^verbatim>\<open>m_grammar\<close>,
  \<^verbatim>\<open>retval\<close>, the messages written so far, and \<^verbatim>\<open>to_visit_new\<close>.
\<close>

record Walk =
  w_visited :: "string list"
  w_rules :: "(string \<times> Rule) list"
  w_retval :: bool
  w_msgs :: "Message list"
  w_to_visit_new :: "string list"

text \<open>
  The body of \<^verbatim>\<open>for (auto rule : to_visit)\<close>. The test
  \<^verbatim>\<open>m_grammar.rules().find(rule_name) == end()\<close> comes first; the loop condition then
  evaluates \<^verbatim>\<open>m_grammar.rules()[rule_name]\<close>, which inserts an empty rule under a
  missing name.
\<close>

definition visit_rule :: "string \<Rightarrow> string list \<Rightarrow> Walk \<Rightarrow> Walk" where
  "visit_rule rule_name to_visit w =
     (let visited1 = key_insert rule_name (w_visited w);
          undefined_rule = (map_of (w_rules w) rule_name = None);
          r = fst (map_index (w_rules w) rule_name);
          rules1 = snd (map_index (w_rules w) rule_name)
      in \<lparr>w_visited = visited1,
          w_rules = rules1,
          w_retval = (if undefined_rule then False else w_retval w),
          w_msgs = (if undefined_rule then w_msgs w @ [UndefinedRule rule_name] else w_msgs w),
          w_to_visit_new = check_sub_elems (m_elems r) to_visit (w_to_visit_new w) visited1\<rparr>)"

fun visit_rules :: "string list \<Rightarrow> string list \<Rightarrow> Walk \<Rightarrow> Walk" where
  "visit_rules [] to_visit w = w"
| "visit_rules (rule_name # rest) to_visit w =
     visit_rules rest to_visit (visit_rule rule_name to_visit w)"

text \<open>
  For stating reachability: the identifiers of the NAME elements of an element, nested
  ones included, and the names a rule refers to.
\<close>

fun elem_names :: "Elem \<Rightarrow> string set" and elems_names :: "Elem list \<Rightarrow> string set" where
  "elem_names (Elem t txts q subs) = (if t = NAME then {first_text txts} else {}) \<union> elems_names subs"
| "elems_names [] = {}"
| "elems_names (e # es) = elem_names e \<union> elems_names es"

definition refs :: "(string \<times> Rule) list \<Rightarrow> string \<Rightarrow> string set" where
  "refs rules n = (case map_of rules n of None \<Rightarrow> {} | Some r \<Rightarrow> elems_names (m_elems r))"

text \<open>All names that some rule refers to; the measure of the walk counts those not yet visited.\<close>

definition all_refs :: "(string \<times> Rule) list \<Rightarrow> string set" where
  "all_refs rules = (\<Union>n. refs rules n)"

lemma set_key_insert [simp]: "set (key_insert k ks) = insert k (set ks)"
  by (induction ks) auto

lemma sorted_key_insert: "sorted_wrt (<) ks \<Longrightarrow> sorted_wrt (<) (key_insert k ks)"
  by (induction ks) auto

lemma set_check_elems:
  "set (check_rule_elems e tv tvn vis) = set tvn \<union> (elem_names e - set tv - set vis)"
  "set (check_sub_elems es tv tvn vis) = set tvn \<union> (elems_names es - set tv - set vis)"
  by (induction e tv tvn vis and es tv tvn vis rule: check_rule_elems_check_sub_elems.induct) auto

lemma sorted_check_elems:
  "sorted_wrt (<) tvn \<Longrightarrow> sorted_wrt (<) (check_rule_elems e tv tvn vis)"
  "sorted_wrt (<) tvn \<Longrightarrow> sorted_wrt (<) (check_sub_elems es tv tvn vis)"
  by (induction e tv tvn vis and es tv tvn vis rule: check_rule_elems_check_sub_elems.induct)
     (auto simp: sorted_key_insert)

lemma finite_elem_names: "finite (elem_names e)" "finite (elems_names es)"
  by (induction e and es rule: elem_names_elems_names.induct) auto

lemma map_of_map_assign: "map_of (map_assign k v m) = (map_of m)(k \<mapsto> v)"
  by (induction m) (auto simp: fun_eq_iff)

lemma keys_map_assign: "fst ` set (map_assign k v m) = insert k (fst ` set m)"
  by (simp add: dom_map_of_conv_image_fst [symmetric] map_of_map_assign)

lemma distinct_map_assign:
  "k \<notin> fst ` set m \<Longrightarrow> distinct (map fst m) \<Longrightarrow> distinct (map fst (map_assign k v m))"
  by (induction m) (auto simp: keys_map_assign)


lemma refs_outside: "n \<notin> fst ` set rules \<Longrightarrow> refs rules n = {}"
  by (simp add: refs_def map_of_eq_None_iff [THEN iffD2])

lemma finite_refs: "finite (refs rules n)"
  by (simp add: refs_def finite_elem_names split: option.splits)

lemma finite_all_refs: "finite (all_refs rules)"
proof -
  have "all_refs rules \<subseteq> (\<Union>n \<in> fst ` set rules. refs rules n)"
    unfolding all_refs_def using refs_outside by fastforce
  moreover have "finite (\<Union>n \<in> fst ` set rules. refs rules n)"
    by (simp add: finite_refs)
  ultimately show ?thesis by (rule finite_subset)
qed

lemma map_of_map_index:
  "map_of (snd (map_index m k)) =
     (case map_of m k of None \<Rightarrow> (map_of m)(k \<mapsto> Rule0) | Some r \<Rightarrow> map_of m)"
  by (simp add: map_index_def map_of_map_assign split: option.split)

lemma elems_map_index: "elems_names (m_elems (fst (map_index m k))) = refs m k"
  by (simp add: map_index_def refs_def Rule0_def split: option.split)

lemma refs_map_index: "refs (snd (map_index m k)) = refs m"
  by (rule ext) (simp add: refs_def map_of_map_index Rule0_def split: option.split)

lemma keys_map_index: "fst ` set (snd (map_index m k)) = insert k (fst ` set m)"
proof (cases "map_of m k")
  case None
  then show ?thesis by (simp add: map_index_def keys_map_assign)
next
  case (Some r)
  then have "k \<in> fst ` set m" by (metis map_of_eq_None_iff option.distinct(1))
  with Some show ?thesis by (auto simp: map_index_def)
qed

lemma distinct_map_index:
  "distinct (map fst m) \<Longrightarrow> distinct (map fst (snd (map_index m k)))"
proof (cases "map_of m k")
  case None
  assume "distinct (map fst m)"
  moreover from None have "k \<notin> fst ` set m" by (simp add: map_of_eq_None_iff)
  ultimately show ?thesis using None by (simp add: map_index_def distinct_map_assign)
next
  case (Some r)
  assume "distinct (map fst m)"
  with Some show ?thesis by (simp add: map_index_def)
qed

lemma visit_rule_simps:
  "set (w_visited (visit_rule n tv w)) = insert n (set (w_visited w))"
  "refs (w_rules (visit_rule n tv w)) = refs (w_rules w)"
  "fst ` set (w_rules (visit_rule n tv w)) = insert n (fst ` set (w_rules w))"
  "w_retval (visit_rule n tv w) = (w_retval w \<and> n \<in> fst ` set (w_rules w))"
  "set (w_msgs (visit_rule n tv w)) =
     set (w_msgs w) \<union> (if n \<in> fst ` set (w_rules w) then {} else {UndefinedRule n})"
  "set (w_to_visit_new (visit_rule n tv w)) =
     set (w_to_visit_new w) \<union> (refs (w_rules w) n - set tv - insert n (set (w_visited w)))"
  by (simp_all add: visit_rule_def Let_def refs_map_index keys_map_index set_check_elems
        elems_map_index map_of_eq_None_iff)

lemma visit_rule_sorted:
  "sorted_wrt (<) (w_visited w) \<Longrightarrow> sorted_wrt (<) (w_visited (visit_rule n tv w))"
  "sorted_wrt (<) (w_to_visit_new w) \<Longrightarrow> sorted_wrt (<) (w_to_visit_new (visit_rule n tv w))"
  "distinct (map fst (w_rules w)) \<Longrightarrow> distinct (map fst (w_rules (visit_rule n tv w)))"
  by (simp_all add: visit_rule_def Let_def sorted_key_insert sorted_check_elems distinct_map_index)

lemma visit_rules_visited: "set (w_visited (visit_rules xs tv w)) = set (w_visited w) \<union> set xs"
  by (induction xs arbitrary: w) (auto simp: visit_rule_simps)

lemma visit_rules_refs: "refs (w_rules (visit_rules xs tv w)) = refs (w_rules w)"
  by (induction xs arbitrary: w) (auto simp: visit_rule_simps)

lemma visit_rules_keys:
  "fst ` set (w_rules (visit_rules xs tv w)) = fst ` set (w_rules w) \<union> set xs"
  by (induction xs arbitrary: w) (auto simp: visit_rule_simps)

lemma visit_rules_retval:
  "w_retval (visit_rules xs tv w) = (w_retval w \<and> set xs \<subseteq> fst ` set (w_rules w))"
  by (induction xs arbitrary: w) (auto simp: visit_rule_simps)

lemma visit_rules_msgs:
  "set (w_msgs (visit_rules xs tv w)) =
     set (w_msgs w) \<union> UndefinedRule ` (set xs - fst ` set (w_rules w))"
proof (induction xs arbitrary: w)
  case Nil
  then show ?case by simp
next
  case (Cons a xs)
  have "set (w_msgs (visit_rules (a # xs) tv w)) =
          set (w_msgs (visit_rule a tv w))
            \<union> UndefinedRule ` (set xs - fst ` set (w_rules (visit_rule a tv w)))"
    using Cons.IH [of "visit_rule a tv w"] by simp
  then show ?case by (auto simp: visit_rule_simps)
qed

lemma visit_rules_new_upper:
  "set (w_to_visit_new (visit_rules xs tv w))
     \<subseteq> set (w_to_visit_new w) \<union> ((\<Union>n \<in> set xs. refs (w_rules w) n) - set tv - set (w_visited w))"
proof (induction xs arbitrary: w)
  case Nil
  then show ?case by simp
next
  case (Cons a xs)
  have "set (w_to_visit_new (visit_rules (a # xs) tv w))
          \<subseteq> set (w_to_visit_new (visit_rule a tv w))
            \<union> ((\<Union>n \<in> set xs. refs (w_rules (visit_rule a tv w)) n) - set tv
                 - set (w_visited (visit_rule a tv w)))"
    using Cons.IH [of "visit_rule a tv w"] by simp
  then show ?case by (auto simp: visit_rule_simps)
qed

lemma visit_rules_new_lower:
  "set (w_to_visit_new w)
     \<union> ((\<Union>n \<in> set xs. refs (w_rules w) n) - set tv - (set (w_visited w) \<union> set xs))
   \<subseteq> set (w_to_visit_new (visit_rules xs tv w))"
proof (induction xs arbitrary: w)
  case Nil
  then show ?case by simp
next
  case (Cons a xs)
  have "set (w_to_visit_new (visit_rule a tv w))
          \<union> ((\<Union>n \<in> set xs. refs (w_rules (visit_rule a tv w)) n) - set tv
               - (set (w_visited (visit_rule a tv w)) \<union> set xs))
        \<subseteq> set (w_to_visit_new (visit_rules (a # xs) tv w))"
    using Cons.IH [of "visit_rule a tv w"] by simp
  then show ?case by (auto simp: visit_rule_simps)
qed

lemma visit_rules_sorted:
  "sorted_wrt (<) (w_visited w) \<Longrightarrow> sorted_wrt (<) (w_visited (visit_rules xs tv w))"
  "sorted_wrt (<) (w_to_visit_new w) \<Longrightarrow> sorted_wrt (<) (w_to_visit_new (visit_rules xs tv w))"
  "distinct (map fst (w_rules w)) \<Longrightarrow> distinct (map fst (w_rules (visit_rules xs tv w)))"
  by (induction xs arbitrary: w) (simp_all add: visit_rule_sorted)


text \<open>
  \<^verbatim>\<open>while (to_visit.size() > 0)\<close>: a fresh \<^verbatim>\<open>to_visit_new\<close>, the loop over
  \<^verbatim>\<open>to_visit\<close>, then \<^verbatim>\<open>to_visit = to_visit_new\<close> with the visited names erased.
\<close>

function check_rules_loop :: "string list \<Rightarrow> Walk \<Rightarrow> Walk" where
  "check_rules_loop to_visit w =
     (if to_visit = [] then w
      else
        (let w1 = visit_rules to_visit to_visit (w\<lparr>w_to_visit_new := []\<rparr>)
         in check_rules_loop (filter (\<lambda>k. k \<notin> set (w_visited w1)) (w_to_visit_new w1)) w1))"
  by pat_completeness auto
termination
proof (relation "measure (\<lambda>(tv, w).
          2 * card (all_refs (w_rules w) - set (w_visited w))
          + (if set tv \<subseteq> all_refs (w_rules w) - set (w_visited w) then 0 else 1))")
  show "wf (measure (\<lambda>(tv, w).
          2 * card (all_refs (w_rules w) - set (w_visited w))
          + (if set tv \<subseteq> all_refs (w_rules w) - set (w_visited w) then 0 else 1)))"
    by simp
next
  fix to_visit :: "string list" and w w1 :: Walk
  assume ne: "to_visit \<noteq> []"
    and w1: "w1 = visit_rules to_visit to_visit (w\<lparr>w_to_visit_new := []\<rparr>)"
  let ?A = "all_refs (w_rules w)"
  let ?V = "set (w_visited w)"
  let ?tv1 = "filter (\<lambda>k. k \<notin> set (w_visited w1)) (w_to_visit_new w1)"
  have A1: "all_refs (w_rules w1) = ?A"
    by (simp add: w1 all_refs_def visit_rules_refs)
  have V1: "set (w_visited w1) = ?V \<union> set to_visit"
    by (simp add: w1 visit_rules_visited)
  have "set (w_to_visit_new w1) \<subseteq> (\<Union>n \<in> set to_visit. refs (w_rules w) n)"
    using visit_rules_new_upper [of to_visit to_visit "w\<lparr>w_to_visit_new := []\<rparr>"]
    by (auto simp: w1)
  then have "set (w_to_visit_new w1) \<subseteq> ?A" by (auto simp: all_refs_def)
  then have sub: "set ?tv1 \<subseteq> all_refs (w_rules w1) - set (w_visited w1)"
    by (auto simp: A1)
  have fin: "finite (?A - ?V)" by (simp add: finite_all_refs)
  have le: "card (?A - (?V \<union> set to_visit)) \<le> card (?A - ?V)"
    by (rule card_mono [OF fin]) auto
  have "2 * card (?A - (?V \<union> set to_visit))
          < 2 * card (?A - ?V) + (if set to_visit \<subseteq> ?A - ?V then 0 else 1)"
  proof (cases "set to_visit \<subseteq> ?A - ?V")
    case True
    from ne obtain x where x: "x \<in> set to_visit" by (cases to_visit) auto
    with True have "x \<in> ?A - ?V" "x \<notin> ?A - (?V \<union> set to_visit)" by auto
    then have "?A - (?V \<union> set to_visit) \<subset> ?A - ?V" by auto
    from psubset_card_mono [OF fin this] True show ?thesis by simp
  next
    case False
    with le show ?thesis by simp
  qed
  with sub show "((?tv1, w1), to_visit, w) \<in> measure (\<lambda>(tv, w).
          2 * card (all_refs (w_rules w) - set (w_visited w))
          + (if set tv \<subseteq> all_refs (w_rules w) - set (w_visited w) then 0 else 1))"
    by (simp add: A1 V1)
qed

declare check_rules_loop.simps [simp del]

text \<open>
  \<^verbatim>\<open>check_rules()\<close>: the returned flag, the grammar afterwards, and the messages.
\<close>

definition check_rules :: "Grammar \<Rightarrow> bool \<times> Grammar \<times> Message list" where
  "check_rules g =
     (let w = check_rules_loop (key_insert (m_rule_root g) [])
                \<lparr>w_visited = [], w_rules = m_rules g, w_retval = True, w_msgs = [],
                 w_to_visit_new = []\<rparr>;
          g1 = g\<lparr>m_rules := w_rules w\<rparr>
      in if length (w_rules w) > length (w_visited w) then
           (False, g1,
            w_msgs w @ map UnreachableRule
                         (filter (\<lambda>n. n \<notin> set (w_visited w)) (map fst (w_rules w))))
         else (w_retval w, g1, w_msgs w))"

text \<open>
  The rules reachable from the root rule through NAME references.
\<close>

definition spec_reachable :: "Grammar \<Rightarrow> string set" where
  "spec_reachable g = {(a, b). b \<in> refs (m_rules g) a}\<^sup>* `` {m_rule_root g}"

section \<open>The driver\<close>

text \<open>
  \<^verbatim>\<open>main(argc, argv)\<close>. What the C library delivers for \<^verbatim>\<open>argv[1]\<close> is a parameter:
  \<^verbatim>\<open>fopen\<close> fails, \<^verbatim>\<open>fread\<close> returns fewer bytes than \<^verbatim>\<open>ftell\<close> reported, or the
  buffer holds the bytes of the file. The result is the exit status, whether
  \<^verbatim>\<open>print_parser\<close> ran, and the messages of the parser and validator.
\<close>

datatype GrammarFile = CannotOpen | ShortRead | FileContents string

definition main :: "nat \<Rightarrow> nat \<Rightarrow> GrammarFile \<Rightarrow> (int \<times> bool \<times> Message list) option" where
  "main k argc file =
     (if argc < 2 then Some (1, False, [])
      else case file of
        CannotOpen \<Rightarrow> Some (1, False, [])
      | ShortRead \<Rightarrow> Some (1, False, [])
      | FileContents buf \<Rightarrow>
          (case parse_grammar k buf cursor_init grammar_init of
             None \<Rightarrow> None
           | Some (ok, c, g, msgs) \<Rightarrow>
               (if ok then
                  (case check_rules g of
                     (ok1, g1, msgs1) \<Rightarrow> Some (0, ok1, msgs @ msgs1))
                else Some (0, False, msgs))))"

section \<open>The emitted parser\<close>

text \<open>
  \<^verbatim>\<open>print_parser\<close> writes the source of a class \<^verbatim>\<open>Parser\<close>: one member function
  \<^verbatim>\<open>parse_<name>\<close> per rule, built from the text templates of \<^verbatim>\<open>print_rule\<close>,
  \<^verbatim>\<open>print_alts\<close>, \<^verbatim>\<open>print_alt\<close>, \<^verbatim>\<open>print_elem\<close> and \<^verbatim>\<open>print_elem_inner\<close>. The
  functions \<open>exec_rule\<close>, \<open>exec_alts\<close>, \<open>exec_alt\<close>, \<open>exec_elem\<close> and
  \<open>exec_elem_inner\<close> below run the statements those templates print, for a rule or
  element of the grammar model. The emitted locals \<^verbatim>\<open>ok<d>\<close>, \<^verbatim>\<open>pos_start<d>\<close>,
  \<^verbatim>\<open>line_start<d>\<close>, \<^verbatim>\<open>col_start<d>\<close> and \<^verbatim>\<open>astn<d>\<close> are arguments and results.

  An emitted parser need not terminate (a rule may call itself without consuming input),
  so the functions take fuel; \<open>None\<close> means that the fuel ran out, that a NAME
  element refers to a rule for which no function was emitted, or that the body printed
  for a rule declares a variable twice in one block (\<open>alts_declare_once\<close> below), so
  that there is no function to run.
\<close>

text \<open>\<^verbatim>\<open>class ASTNode\<close> of ASTNode.h, with its two-argument constructor and \<^verbatim>\<open>add_child\<close>.\<close>

datatype ASTNode = ASTNode (n_pos: nat) (n_text: string) (n_children: "ASTNode list")

definition add_child :: "ASTNode \<Rightarrow> ASTNode \<Rightarrow> ASTNode" where
  "add_child parent child = ASTNode (n_pos parent) (n_text parent) (n_children parent @ [child])"

text \<open>
  The members of the emitted \<^verbatim>\<open>Parser\<close>: the cursor \<^verbatim>\<open>m_pos\<close>, \<^verbatim>\<open>m_line\<close>,
  \<^verbatim>\<open>m_col\<close> and the furthest progress.
\<close>

record Parser = Cursor +
  m_pos_ok :: nat
  m_line_ok :: nat
  m_col_ok :: nat

text \<open>\<^verbatim>\<open>#define RET_FAIL 0\<close>, \<^verbatim>\<open>#define RET_OK 1\<close>, \<^verbatim>\<open>#define RET_INLINE 2\<close>.\<close>

definition RET_FAIL :: int where "RET_FAIL = 0"
definition RET_OK :: int where "RET_OK = 1"
definition RET_INLINE :: int where "RET_INLINE = 2"

text \<open>
  What an emitted parser is run with: the grammar it was emitted from, the input text,
  and the value the C++ compiler gives the token of a STRING element in
  \<^verbatim>\<open>const char *str = <token>;\<close> (its bytes up to the terminator). The compiler is
  not part of the repository, so that value is a parameter. \<open>unquote\<close> is the value
  for a token without escape sequences.
\<close>

record Env =
  e_literal :: "string \<Rightarrow> string"
  e_grammar :: Grammar
  e_text :: string

definition unquote :: "string \<Rightarrow> string" where
  "unquote tok = butlast (tl tok)"

text \<open>
  The condition that \<^verbatim>\<open>print_elem_inner\<close> prints for a CH_CLASS element. It walks the
  tokens twice with the same steps (an optional unescaped \<open>!\<close>, a character, an
  optional unescaped \<open>-\<close> and a second character): once for the negated ranges and
  once for the others. \<open>class_ranges\<close> is that walk from index \<open>idx\<close> up to the
  closing bracket, \<open>ch_class_expr\<close> the value of the printed condition
  \<^verbatim>\<open>[!](true && !(...) ... && (false || (...) ...))\<close> at a decoded character.
  Token reads out of range give the empty string.
\<close>

definition tok_at :: "string list \<Rightarrow> nat \<Rightarrow> string" where
  "tok_at toks i = (if i < length toks then toks ! i else [])"

function class_ranges :: "string list \<Rightarrow> nat \<Rightarrow> (bool \<times> int \<times> int option) list" where
  "class_ranges toks idx =
     (if idx < length toks - 1 then
        (let flag_negate = (decode_to_int32 (tok_at toks idx) = (False, 0x21));
             i1 = (if flag_negate then idx + 1 else idx);
             range_ch1 = snd (decode_to_int32 (tok_at toks i1));
             i2 = i1 + 1;
             flag_is_range = (decode_to_int32 (tok_at toks i2) = (False, 0x2d));
             range_ch2 = snd (decode_to_int32 (tok_at toks (i2 + 1)))
         in (flag_negate, range_ch1, if flag_is_range then Some range_ch2 else None)
            # class_ranges toks (if flag_is_range then i2 + 2 else i2))
      else [])"
  by pat_completeness auto
termination
  by (relation "measure (\<lambda>(toks, idx). length toks - idx)") (auto simp: Let_def)

declare class_ranges.simps [simp del]

definition in_range :: "int \<Rightarrow> int \<times> int option \<Rightarrow> bool" where
  "in_range c r = (case r of (x, None) \<Rightarrow> c = x | (x, Some y) \<Rightarrow> c \<ge> x \<and> c \<le> y)"

definition ch_class_expr :: "string list \<Rightarrow> int \<Rightarrow> bool" where
  "ch_class_expr toks c =
     (let flag_negate_all = (decode_to_int32 (tok_at toks 1) = (False, 0x5e));
          items = class_ranges toks (if flag_negate_all then 2 else 1);
          negative = list_all (\<lambda>(neg, r). if neg then \<not> in_range c r else True) items;
          positive = list_ex (\<lambda>(neg, r). if neg then False else in_range c r) items
      in if flag_negate_all then \<not> (negative \<and> positive) else negative \<and> positive)"

text \<open>
  \<^verbatim>\<open>ASTNode astn<d>(pos_start, std::string(&m_text[pos_start], m_pos - pos_start));\<close>
\<close>

definition new_node :: "string \<Rightarrow> nat \<Rightarrow> nat \<Rightarrow> ASTNode" where
  "new_node txt pos_start pos = ASTNode pos_start (substr txt pos_start (pos - pos_start)) []"

text \<open>The statements printed for a CH_CLASS element: the flag \<^verbatim>\<open>ok<d>\<close>, the parser, the node.\<close>

definition ch_class_step ::
  "string \<Rightarrow> Elem \<Rightarrow> nat \<Rightarrow> Parser \<Rightarrow> ASTNode \<Rightarrow> bool \<times> Parser \<times> ASTNode" where
  "ch_class_step txt e pos_start p a =
     (case utf8_to_int32 txt (m_pos p) of
        None \<Rightarrow> (False, p, a)
      | Some (ch_decoded, len_item) \<Rightarrow>
          if len_item > 0 \<and> ch_class_expr (m_text e) ch_decoded then
            (let p1 = p\<lparr>m_pos := m_pos p + nat len_item, m_col := m_col p + nat len_item\<rparr>;
                 a1 = add_child a (new_node txt pos_start (m_pos p1));
                 p2 = (if ch_decoded = 0x0a then p1\<lparr>m_line := m_line p1 + 1, m_col := 1\<rparr> else p1)
             in (True, p2, a1))
          else (False, p, a))"

text \<open>
  The statements printed for a STRING element.
  \<^verbatim>\<open>for (; i < strlen(str) && m_text[m_pos] == str[i]; i++, m_pos++, m_col++);\<close> leaves
  the cursor behind the matched prefix also when the literal does not match.
\<close>

fun string_loop :: "string \<Rightarrow> string \<Rightarrow> Parser \<Rightarrow> bool \<times> Parser" where
  "string_loop txt [] p = (True, p)"
| "string_loop txt (s # str) p =
     (if char_at txt (m_pos p) = s
      then string_loop txt str (p\<lparr>m_pos := m_pos p + 1, m_col := m_col p + 1\<rparr>)
      else (False, p))"

definition string_step ::
  "string \<Rightarrow> string \<Rightarrow> nat \<Rightarrow> Parser \<Rightarrow> ASTNode \<Rightarrow> bool \<times> Parser \<times> ASTNode" where
  "string_step txt str pos_start p a =
     (case string_loop txt str p of
        (ok, p1) \<Rightarrow>
          (ok, p1, if ok then add_child a (new_node txt pos_start (m_pos p1)) else a))"

text \<open>The two branches that \<^verbatim>\<open>print_elem\<close> prints after an element.\<close>

definition note_progress :: "Parser \<Rightarrow> Parser" where
  "note_progress p =
     (if m_pos p > m_pos_ok p
      then p\<lparr>m_pos_ok := m_pos p, m_line_ok := m_line p, m_col_ok := m_col p\<rparr>
      else p)"

definition rollback :: "nat \<Rightarrow> nat \<Rightarrow> nat \<Rightarrow> Parser \<Rightarrow> Parser" where
  "rollback pos line col p = p\<lparr>m_pos := pos, m_line := line, m_col := col\<rparr>"

text \<open>
  For a \<open>+\<close> element \<^verbatim>\<open>print_elem\<close> prints the declaration
  \<^verbatim>\<open>int32_t counter<depth> = 0;\<close> in front of the element's loop, that is in the block
  of the alternate, where every element of the alternate has the same depth. An alternate
  with two \<open>+\<close> elements therefore declares one name twice in one block, and the
  function printed for its rule is ill-formed. The other locals are declared inside the
  loop of their element or at the head of their own block. \<open>counter_decls\<close> counts the
  declarations \<^verbatim>\<open>print_alt\<close> puts in one block (it passes over ALT elements, as
  \<^verbatim>\<open>print_elem\<close> does); \<open>alts_declare_once\<close>, \<open>alt_declares_once\<close>,
  \<open>elems_declare_once\<close> and \<open>elem_declares_once\<close> go through the blocks that
  \<^verbatim>\<open>print_alts\<close>, \<^verbatim>\<open>print_alt\<close> and \<^verbatim>\<open>print_elem\<close> print, the last one entering
  the alternates of a GROUP.
\<close>

definition counter_decls :: "Elem list \<Rightarrow> nat" where
  "counter_decls es =
     length (filter (\<lambda>e. m_type e \<noteq> ALT \<and> m_quantifier e = ONE_PLUS) es)"

fun alts_declare_once :: "Elem list \<Rightarrow> bool"
  and alt_declares_once :: "Elem \<Rightarrow> bool"
  and elems_declare_once :: "Elem list \<Rightarrow> bool"
  and elem_declares_once :: "Elem \<Rightarrow> bool"
where
  "alts_declare_once [] = True"
| "alts_declare_once (alt # alts) = (alt_declares_once alt \<and> alts_declare_once alts)"
| "alt_declares_once (Elem t toks q subs) =
     (if t \<noteq> ALT then True else counter_decls subs \<le> 1 \<and> elems_declare_once subs)"
| "elems_declare_once [] = True"
| "elems_declare_once (e # es) = (elem_declares_once e \<and> elems_declare_once es)"
| "elem_declares_once (Elem t toks q subs) =
     (if t = GROUP then alts_declare_once subs else True)"

text \<open>
  \<^item> \<open>exec_rule\<close>: the body of \<^verbatim>\<open>parse_<name>\<close> from \<^verbatim>\<open>print_rule\<close>, where that
    body declares no counter twice. With the modifier \<^verbatim>\<open>mergeup\<close>, \<^verbatim>\<open>astn0\<close> is a
    reference to \<^verbatim>\<open>parent\<close>.
  \<^item> \<open>exec_alts\<close>, \<open>exec_alts_loop\<close>: the block of \<^verbatim>\<open>print_alts\<close>; the node is
    \<^verbatim>\<open>astn<depth>\<close>, to which the elements two levels down add their children.
  \<^item> \<open>exec_alt\<close>, \<open>exec_elems\<close>: the block of \<^verbatim>\<open>print_alt\<close>. The first flag of
    \<open>exec_elems\<close> tells that an element failed and the block was left by
    \<^verbatim>\<open>break\<close>, before \<^verbatim>\<open>ok<depth-1> = ok<depth>\<close>.
  \<^item> \<open>exec_elem\<close>, \<open>exec_zero_plus\<close>, \<open>exec_one_plus\<close>: the four quantifier
    templates of \<^verbatim>\<open>print_elem\<close>, each of which assigns \<^verbatim>\<open>pos_start<depth-1> = m_pos\<close>
    before the element; the result carries that variable.
  \<^item> \<open>exec_elem_inner\<close>: \<^verbatim>\<open>print_elem_inner\<close>. For a GROUP the children collected in
    the temporary node are added to the enclosing node on success.
\<close>

function (sequential)
      exec_rule :: "nat \<Rightarrow> Env \<Rightarrow> Rule \<Rightarrow> Parser \<Rightarrow> ASTNode \<Rightarrow> (int \<times> Parser \<times> ASTNode) option"
  and exec_alts :: "nat \<Rightarrow> Env \<Rightarrow> Elem list \<Rightarrow> Parser \<Rightarrow> ASTNode \<Rightarrow> (bool \<times> Parser \<times> ASTNode) option"
  and exec_alts_loop ::
        "nat \<Rightarrow> Env \<Rightarrow> Elem list \<Rightarrow> bool \<Rightarrow> Parser \<Rightarrow> ASTNode \<Rightarrow> (bool \<times> Parser \<times> ASTNode) option"
  and exec_alt ::
        "nat \<Rightarrow> Env \<Rightarrow> Elem \<Rightarrow> bool \<Rightarrow> Parser \<Rightarrow> ASTNode \<Rightarrow> (bool \<times> Parser \<times> ASTNode) option"
  and exec_elems ::
        "nat \<Rightarrow> Env \<Rightarrow> Elem list \<Rightarrow> bool \<Rightarrow> nat \<Rightarrow> nat \<Rightarrow> nat \<Rightarrow> Parser \<Rightarrow> ASTNode
           \<Rightarrow> (bool \<times> bool \<times> Parser \<times> ASTNode) option"
  and exec_elem ::
        "nat \<Rightarrow> Env \<Rightarrow> Elem \<Rightarrow> Parser \<Rightarrow> ASTNode \<Rightarrow> (bool \<times> nat \<times> Parser \<times> ASTNode) option"
  and exec_zero_plus ::
        "nat \<Rightarrow> Env \<Rightarrow> Elem \<Rightarrow> Parser \<Rightarrow> ASTNode \<Rightarrow> (nat \<times> Parser \<times> ASTNode) option"
  and exec_one_plus ::
        "nat \<Rightarrow> Env \<Rightarrow> Elem \<Rightarrow> nat \<Rightarrow> Parser \<Rightarrow> ASTNode \<Rightarrow> (nat \<times> nat \<times> Parser \<times> ASTNode) option"
  and exec_elem_inner ::
        "nat \<Rightarrow> Env \<Rightarrow> Elem \<Rightarrow> nat \<Rightarrow> Parser \<Rightarrow> ASTNode \<Rightarrow> (bool \<times> Parser \<times> ASTNode) option"
where
  "exec_rule 0 env rule p parent = None"
| "exec_rule (Suc k) env rule p parent =
     (if \<not> alts_declare_once (m_elems rule) then None
      else
        let astn0 = (if m_mod rule = ''mergeup'' then parent
                     else ASTNode (m_pos p) (m_name rule) [])
        in case exec_alts k env (m_elems rule) p astn0 of
             None \<Rightarrow> None
           | Some (ok0, p1, astn1) \<Rightarrow>
               (let parent1 = (if m_mod rule = ''mergeup'' then astn1 else parent);
                    p2 = (if \<not> ok0 then rollback (m_pos p) (m_line p) (m_col p) p1 else p1);
                    parent2 = (if ok0 \<and> m_mod rule \<noteq> ''discard'' \<and> m_mod rule \<noteq> ''inline''
                                   \<and> m_mod rule \<noteq> ''mergeup''
                               then add_child parent1 astn1 else parent1)
                in Some (if ok0 then (if m_mod rule = ''inline'' then RET_INLINE else RET_OK)
                         else RET_FAIL,
                         p2, parent2)))"
| "exec_alts 0 env elems p a = None"
| "exec_alts (Suc k) env elems p a =
     (case exec_alts_loop k env elems False p a of
        None \<Rightarrow> None
      | Some (ok0, p1, a1) \<Rightarrow>
          Some (ok0, if \<not> ok0 then rollback (m_pos p) (m_line p) (m_col p) p1 else p1, a1))"
| "exec_alts_loop 0 env elems ok0 p a = None"
| "exec_alts_loop (Suc k) env [] ok0 p a = Some (ok0, p, a)"
| "exec_alts_loop (Suc k) env (alt # alts) ok0 p a =
     (case exec_alt k env alt ok0 p a of
        None \<Rightarrow> None
      | Some (ok1, p1, a1) \<Rightarrow>
          if ok1 then Some (ok1, p1, a1) else exec_alts_loop k env alts ok1 p1 a1)"
| "exec_alt 0 env alt ok0 p a = None"
| "exec_alt (Suc k) env alt ok0 p a =
     (if m_type alt \<noteq> ALT then Some (ok0, p, a)
      else case exec_elems k env (m_sub_elems alt) False (m_pos p) (m_line p) (m_col p) p a of
        None \<Rightarrow> None
      | Some (broke, ok1, p1, a1) \<Rightarrow> Some (if broke then ok0 else ok1, p1, a1))"
| "exec_elems 0 env es ok1 pos_start line_start col_start p a = None"
| "exec_elems (Suc k) env [] ok1 pos_start line_start col_start p a = Some (False, ok1, p, a)"
| "exec_elems (Suc k) env (e # es) ok1 pos_start line_start col_start p a =
     (if m_type e = ALT then exec_elems k env es ok1 pos_start line_start col_start p a
      else case exec_elem k env e p a of
        None \<Rightarrow> None
      | Some (ok2, pos_start2, p1, a1) \<Rightarrow>
          if \<not> ok2 then Some (True, ok2, rollback pos_start2 line_start col_start p1, a1)
          else exec_elems k env es ok2 pos_start2 line_start col_start (note_progress p1) a1)"
| "exec_elem 0 env e p a = None"
| "exec_elem (Suc k) env e p a =
     (case m_quantifier e of
        ONE \<Rightarrow>
          (case exec_elem_inner k env e (m_pos p) p a of
             None \<Rightarrow> None
           | Some (ok, p1, a1) \<Rightarrow> Some (ok, m_pos p, p1, a1))
      | ZERO_ONE \<Rightarrow>
          (case exec_elem_inner k env e (m_pos p) p a of
             None \<Rightarrow> None
           | Some (ok, p1, a1) \<Rightarrow> Some (True, m_pos p, p1, a1))
      | ZERO_PLUS \<Rightarrow>
          (case exec_zero_plus k env e p a of
             None \<Rightarrow> None
           | Some (pos_start, p1, a1) \<Rightarrow> Some (True, pos_start, p1, a1))
      | ONE_PLUS \<Rightarrow>
          (case exec_one_plus k env e 0 p a of
             None \<Rightarrow> None
           | Some (counter, pos_start, p1, a1) \<Rightarrow> Some (counter > 0, pos_start, p1, a1)))"
| "exec_zero_plus 0 env e p a = None"
| "exec_zero_plus (Suc k) env e p a =
     (case exec_elem_inner k env e (m_pos p) p a of
        None \<Rightarrow> None
      | Some (ok, p1, a1) \<Rightarrow>
          if ok then exec_zero_plus k env e p1 a1 else Some (m_pos p, p1, a1))"
| "exec_one_plus 0 env e counter p a = None"
| "exec_one_plus (Suc k) env e counter p a =
     (case exec_elem_inner k env e (m_pos p) p a of
        None \<Rightarrow> None
      | Some (ok, p1, a1) \<Rightarrow>
          if \<not> ok then Some (counter, m_pos p, p1, a1)
          else exec_one_plus k env e (counter + 1) p1 a1)"
| "exec_elem_inner 0 env e pos_start p a = None"
| "exec_elem_inner (Suc k) env e pos_start p a =
     (case m_type e of
        NAME \<Rightarrow>
          (case map_of (m_rules (e_grammar env)) (first_text (m_text e)) of
             None \<Rightarrow> None
           | Some rule \<Rightarrow>
               (case exec_rule k env rule p a of
                  None \<Rightarrow> None
                | Some (ret, p1, a1) \<Rightarrow>
                    Some (ret \<noteq> RET_FAIL, p1,
                          if m_mod rule = ''inline'' \<and> ret = RET_INLINE
                          then add_child a1 (new_node (e_text env) pos_start (m_pos p1))
                          else a1)))
      | CH_CLASS \<Rightarrow> Some (ch_class_step (e_text env) e pos_start p a)
      | STRING \<Rightarrow>
          Some (string_step (e_text env) (e_literal env (first_text (m_text e))) pos_start p a)
      | GROUP \<Rightarrow>
          (case exec_alts k env (m_sub_elems e) p (ASTNode (m_pos p) ''alts_tmp'' []) of
             None \<Rightarrow> None
           | Some (ok, p1, tmp) \<Rightarrow>
               Some (ok, p1, if ok then fold (\<lambda>child node. add_child node child) (n_children tmp) a
                             else a))
      | ALT \<Rightarrow> None)"
  by pat_completeness auto
termination
  by (relation "measure (\<lambda>x. case x of
          Inl (Inl (Inl (k, _))) \<Rightarrow> k
        | Inl (Inl (Inr (k, _))) \<Rightarrow> k
        | Inl (Inr (Inl (k, _))) \<Rightarrow> k
        | Inl (Inr (Inr (k, _))) \<Rightarrow> k
        | Inr (Inl (Inl (k, _))) \<Rightarrow> k
        | Inr (Inl (Inr (k, _))) \<Rightarrow> k
        | Inr (Inr (Inl (k, _))) \<Rightarrow> k
        | Inr (Inr (Inr (Inl (k, _)))) \<Rightarrow> k
        | Inr (Inr (Inr (Inr (k, _)))) \<Rightarrow> k)") auto

text \<open>The initial members of the emitted \<^verbatim>\<open>Parser\<close>.\<close>

definition parser_init :: Parser where
  "parser_init = \<lparr>m_pos = 0, m_line = 1, m_col = 1, m_pos_ok = 0, m_line_ok = 1, m_col_ok = 1\<rparr>"

section \<open>Example grammars\<close>

text \<open>
  The grammar models that \<^verbatim>\<open>parse_grammar\<close> builds from the texts
  \<open>a : "x"; b : c;\<close> and \<open>a : b "x"; b : "y" a?;\<close> and \<open>a : b;\<close> and
  \<open>r : "ab" "cd" | "ab" "ce";\<close> and \<open>foo : "x";\<close> and
  \<open>a : "x"+; b discard : "x"+; c inline : "x"+; d mergeup : "x"+;\<close> and
  \<open>r : "a"+ "b"+;\<close> (lemmas \<open>parse_..._grammar\<close> below), and what the emitted
  parsers are run with.
\<close>

definition unreached_grammar :: Grammar where
  "unreached_grammar =
     \<lparr>m_rules =
        [(''a'', \<lparr>m_name = ''a'', m_mod = [],
                 m_elems = [Elem ALT [] ONE [Elem STRING [[CHR 0x22, CHR ''x'', CHR 0x22]] ONE []]]\<rparr>),
         (''b'', \<lparr>m_name = ''b'', m_mod = [],
                 m_elems = [Elem ALT [] ONE [Elem NAME [''c''] ONE []]]\<rparr>)],
      m_rule_root = ''a''\<rparr>"

definition cyclic_grammar :: Grammar where
  "cyclic_grammar =
     \<lparr>m_rules =
        [(''a'', \<lparr>m_name = ''a'', m_mod = [],
                 m_elems = [Elem ALT [] ONE [Elem NAME [''b''] ONE [],
                                              Elem STRING [[CHR 0x22, CHR ''x'', CHR 0x22]] ONE []]]\<rparr>),
         (''b'', \<lparr>m_name = ''b'', m_mod = [],
                 m_elems = [Elem ALT [] ONE [Elem STRING [[CHR 0x22, CHR ''y'', CHR 0x22]] ONE [],
                                              Elem NAME [''a''] ZERO_ONE []]]\<rparr>)],
      m_rule_root = ''a''\<rparr>"

definition dangling_grammar :: Grammar where
  "dangling_grammar =
     \<lparr>m_rules =
        [(''a'', \<lparr>m_name = ''a'', m_mod = [],
                 m_elems = [Elem ALT [] ONE [Elem NAME [''b''] ONE []]]\<rparr>)],
      m_rule_root = ''a''\<rparr>"

definition two_step_grammar :: Grammar where
  "two_step_grammar =
     \<lparr>m_rules =
        [(''r'', \<lparr>m_name = ''r'', m_mod = [],
                 m_elems =
                   [Elem ALT [] ONE
                      [Elem STRING [[CHR 0x22, CHR ''a'', CHR ''b'', CHR 0x22]] ONE [],
                       Elem STRING [[CHR 0x22, CHR ''c'', CHR ''d'', CHR 0x22]] ONE []],
                    Elem ALT [] ONE
                      [Elem STRING [[CHR 0x22, CHR ''a'', CHR ''b'', CHR 0x22]] ONE [],
                       Elem STRING [[CHR 0x22, CHR ''c'', CHR ''e'', CHR 0x22]] ONE []]]\<rparr>)],
      m_rule_root = ''r''\<rparr>"

definition single_literal_grammar :: Grammar where
  "single_literal_grammar =
     \<lparr>m_rules =
        [(''foo'', \<lparr>m_name = ''foo'', m_mod = [],
                   m_elems = [Elem ALT [] ONE
                                [Elem STRING [[CHR 0x22, CHR ''x'', CHR 0x22]] ONE []]]\<rparr>)],
      m_rule_root = ''foo''\<rparr>"

definition modifier_grammar :: Grammar where
  "modifier_grammar =
     \<lparr>m_rules =
        [(''a'', \<lparr>m_name = ''a'', m_mod = [],
                 m_elems = [Elem ALT [] ONE
                              [Elem STRING [[CHR 0x22, CHR ''x'', CHR 0x22]] ONE_PLUS []]]\<rparr>),
         (''b'', \<lparr>m_name = ''b'', m_mod = ''discard'',
                 m_elems = [Elem ALT [] ONE
                              [Elem STRING [[CHR 0x22, CHR ''x'', CHR 0x22]] ONE_PLUS []]]\<rparr>),
         (''c'', \<lparr>m_name = ''c'', m_mod = ''inline'',
                 m_elems = [Elem ALT [] ONE
                              [Elem STRING [[CHR 0x22, CHR ''x'', CHR 0x22]] ONE_PLUS []]]\<rparr>),
         (''d'', \<lparr>m_name = ''d'', m_mod = ''mergeup'',
                 m_elems = [Elem ALT [] ONE
                              [Elem STRING [[CHR 0x22, CHR ''x'', CHR 0x22]] ONE_PLUS []]]\<rparr>)],
      m_rule_root = ''a''\<rparr>"

definition two_counters_grammar :: Grammar where
  "two_counters_grammar =
     \<lparr>m_rules =
        [(''r'', \<lparr>m_name = ''r'', m_mod = [],
                 m_elems = [Elem ALT [] ONE
                              [Elem STRING [[CHR 0x22, CHR ''a'', CHR 0x22]] ONE_PLUS [],
                               Elem STRING [[CHR 0x22, CHR ''b'', CHR 0x22]] ONE_PLUS []]]\<rparr>)],
      m_rule_root = ''r''\<rparr>"

definition env_of :: "Grammar \<Rightarrow> string \<Rightarrow> Env" where
  "env_of g txt = \<lparr>e_literal = unquote, e_grammar = g, e_text = txt\<rparr>"

definition root_node :: ASTNode where
  "root_node = ASTNode 0 ''ROOT'' []"

section \<open>Properties of the lexing primitives\<close>

lemma restore_cursor [simp]:
  "(c1 :: Cursor)\<lparr>m_pos := m_pos c, m_col := m_col c, m_line := m_line c\<rparr> = c"
  by (cases c, cases c1) simp

lemma parse_id_loop_length: "len \<le> fst (parse_id_loop t c len)"
proof (induction t c len rule: parse_id_loop.induct)
  case (1 t c len)
  let ?ch = "char_at t (m_pos c)"
  show ?case
  proof (cases "?ch = CHR ''_'' \<or> is_digit ?ch \<or> is_alpha ?ch")
    case True
    from "1.IH" [OF refl True] have "len + 1 \<le> fst (parse_id_loop t (advance c) (len + 1))" .
    with True show ?thesis by (subst parse_id_loop.simps) (simp add: Let_def)
  next
    case False
    then show ?thesis by (subst parse_id_loop.simps) (simp add: Let_def)
  qed
qed

lemma parse_id_failure: "fst (parse_id t c) = -1 \<Longrightarrow> snd (parse_id t c) = c"
  using parse_id_loop_length [of 1 t "advance c"]
  by (auto simp: parse_id_def Let_def split: if_splits)

lemma parse_string_loop_length:
  "parse_string_loop t c len esc_set = (True, n, c1) \<Longrightarrow> len < n"
proof (induction t c len esc_set rule: parse_string_loop.induct)
  case (1 t c len esc_set)
  let ?ch = "char_at t (m_pos c)"
  from "1.prems" have ok: "\<not> schar ?ch < schar CHR '' ''"
    by (subst (asm) parse_string_loop.simps) (auto simp: Let_def split: if_splits)
  show ?case
  proof (cases "?ch = CHR 0x5C \<and> \<not> esc_set")
    case True
    with "1.prems" ok have "parse_string_loop t (advance c) (len + 1) True = (True, n, c1)"
      by (subst (asm) parse_string_loop.simps) (auto simp: Let_def split: if_splits)
    from "1.IH"(1) [OF refl ok True this] show ?thesis by simp
  next
    case esc: False
    show ?thesis
    proof (cases "?ch = CHR 0x22 \<and> \<not> esc_set")
      case True
      with "1.prems" ok esc show ?thesis
        by (subst (asm) parse_string_loop.simps) (auto simp: Let_def split: if_splits)
    next
      case False
      with "1.prems" ok esc
      have "parse_string_loop t (advance c) (len + 1) False = (True, n, c1)"
        by (subst (asm) parse_string_loop.simps) (auto simp: Let_def split: if_splits)
      from "1.IH"(2) [OF refl ok esc False this] show ?thesis by simp
    qed
  qed
qed

lemma parse_string_failure:
  "fst (parse_string t c elems) = -1 \<Longrightarrow> fst (snd (parse_string t c elems)) = c"
proof (cases "char_at t (m_pos c) \<noteq> CHR 0x22")
  case True
  then show ?thesis by (simp add: parse_string_def)
next
  case False
  assume fail: "fst (parse_string t c elems) = -1"
  obtain ok n c1 where loop: "parse_string_loop t (advance c) 1 False = (ok, n, c1)"
    by (cases "parse_string_loop t (advance c) 1 False") auto
  show ?thesis
  proof (cases ok)
    case True
    with loop parse_string_loop_length [of t "advance c" 1 False n c1] have "1 < n" by simp
    with fail False loop True show ?thesis by (simp add: parse_string_def)
  next
    case ok: False
    with False loop show ?thesis by (simp add: parse_string_def)
  qed
qed

lemma parse_ch_class_failure:
  "fst (parse_ch_class t c elems) = -1 \<Longrightarrow> fst (snd (parse_ch_class t c elems)) = c"
  by (auto simp: parse_ch_class_def Let_def split: if_splits prod.splits)

text \<open>
  C1 (as amended). \<^verbatim>\<open>parse_id\<close>, \<^verbatim>\<open>parse_string\<close> and \<^verbatim>\<open>parse_ch_class\<close>: whenever
  one of them returns -1, the cursor \<open>(pos, line, col)\<close> it leaves is the cursor it was
  entered with, for every text and every starting cursor.
\<close>

theorem failing_primitive_restores_cursor:
  "(fst (parse_id txt c) = -1 \<longrightarrow> snd (parse_id txt c) = c) \<and>
   (fst (parse_string txt c elems) = -1 \<longrightarrow> fst (snd (parse_string txt c elems)) = c) \<and>
   (fst (parse_ch_class txt c elems) = -1 \<longrightarrow> fst (snd (parse_ch_class txt c elems)) = c)"
  using parse_id_failure parse_string_failure parse_ch_class_failure by blast

text \<open>
  The three primitives fail on the texts \<open>1x\<close>, \<open>"ab\<close> (no closing quote) and
  \<open>[b-a]\<close> (a descending range, rejected after six bytes were read).
\<close>

theorem failing_primitive_restores_cursor_witness:
  \<open>fst (parse_id ''1x'' cursor_init) = -1 \<and>
   snd (parse_id ''1x'' cursor_init) = cursor_init \<and>
   fst (parse_string ''"ab'' cursor_init []) = -1 \<and>
   fst (snd (parse_string ''"ab'' cursor_init [])) = cursor_init \<and>
   fst (parse_ch_class ''[b-a]'' cursor_init []) = -1 \<and>
   fst (snd (parse_ch_class ''[b-a]'' cursor_init [])) = cursor_init\<close>
proof -
  have a: \<open>fst (parse_id ''1x'' cursor_init) = -1\<close> by code_simp
  have b: \<open>fst (parse_string ''"ab'' cursor_init []) = -1\<close> by code_simp
  have d: \<open>fst (parse_ch_class ''[b-a]'' cursor_init []) = -1\<close> by code_simp
  from a failing_primitive_restores_cursor [of "''1x''" cursor_init]
  have a1: \<open>snd (parse_id ''1x'' cursor_init) = cursor_init\<close> by blast
  from b failing_primitive_restores_cursor [of \<open>''"ab''\<close> cursor_init "[]"]
  have b1: \<open>fst (snd (parse_string ''"ab'' cursor_init [])) = cursor_init\<close> by blast
  from d failing_primitive_restores_cursor [of \<open>''[b-a]''\<close> cursor_init "[]"]
  have d1: \<open>fst (snd (parse_ch_class ''[b-a]'' cursor_init [])) = cursor_init\<close> by blast
  from a a1 b b1 d d1 show ?thesis by blast
qed

text \<open>
  C1 as stated fails for \<^verbatim>\<open>parse_char\<close> and \<^verbatim>\<open>parse_ch_class_range\<close>: on the text
  backslash, \<open>q\<close> the first returns -1 with the cursor behind the backslash, and on the
  text \<open>-\<close> the second returns -1 with the cursor behind the hyphen.
\<close>

theorem parse_char_failure_moves_cursor:
  "fst (parse_char [CHR 0x5C, CHR ''q''] cursor_init (Elem1 CH_CLASS)) = -1 \<and>
   fst (snd (parse_char [CHR 0x5C, CHR ''q''] cursor_init (Elem1 CH_CLASS)))
     = \<lparr>m_pos = 1, m_line = 1, m_col = 2\<rparr> \<and>
   fst (parse_ch_class_range ''-'' cursor_init (Elem1 CH_CLASS)) = -1 \<and>
   fst (snd (parse_ch_class_range ''-'' cursor_init (Elem1 CH_CLASS)))
     = \<lparr>m_pos = 1, m_line = 1, m_col = 2\<rparr> \<and>
   cursor_init \<noteq> \<lparr>m_pos = 1, m_line = 1, m_col = 2\<rparr>"
  by code_simp

text \<open>
  \<^verbatim>\<open>parse_group\<close> on the text \<open>(\<close>: it returns -1 and leaves the cursor behind the
  parenthesis, for any fuel that lets it return.
\<close>

lemma parse_group_failure_moves_cursor:
  "parse_group (Suc (Suc k)) ''('' cursor_init [] = Some (-1, \<lparr>m_pos = 1, m_line = 1, m_col = 2\<rparr>, [])"
  by (simp add: cursor_init_def char_at_def advance_def parse_ws.simps Let_def)

section \<open>Properties of the character decoders\<close>

text \<open>
  C6 at the two-byte sequence C3 A9 (U+00E9), whose continuation byte has the top bits
  10: \<^verbatim>\<open>parse_utf8_char\<close> returns -1, where \<^verbatim>\<open>utf8_to_int32\<close> decodes the code point 233
  of length 2.
\<close>

theorem parse_utf8_char_rejects_two_byte_sequence:
  "parse_utf8_char [CHR 0xC3, CHR 0xA9] 0 = -1 \<and>
   utf8_to_int32 [CHR 0xC3, CHR 0xA9] 0 = Some (233, 2)"
  by code_simp

text \<open>
  More generally, \<^verbatim>\<open>parse_utf8_char\<close> returns -1 at every byte with the high bit set
  that is followed by a continuation byte (top bits 10), so at every well-formed
  sequence of two, three or four bytes.
\<close>

lemma parse_utf8_char_rejects_continuation_byte:
  assumes lead: "uchar (char_at t p) AND 0x80 \<noteq> 0"
    and cont: "uchar (char_at t (p + 1)) AND 0xc0 = 0x80"
  shows "parse_utf8_char t p = -1"
proof -
  have l: "\<not> parse_utf8_char_loop t p (0 # 1 # is)" for "is"
    using cont by (simp add: Let_def)
  have u2: "[0 ..< 2] = 0 # 1 # []" and u3: "[0 ..< 3] = 0 # 1 # [2]"
    and u4: "[0 ..< 4] = 0 # 1 # [2, 3]"
    by (simp_all add: upt_rec)
  from lead show ?thesis
    unfolding parse_utf8_char_def Let_def u2 u3 u4 using l by simp
qed

text \<open>
  C7 at the literal \<open>"\<close> C3 A9 \<open>"\<close>: every byte between the quotes is at least 0x20 as an
  unsigned value, and \<^verbatim>\<open>parse_string\<close> returns -1 and stores no token.
\<close>

theorem parse_string_rejects_high_bytes:
  "parse_string [CHR 0x22, CHR 0xC3, CHR 0xA9, CHR 0x22] cursor_init [] = (-1, cursor_init, []) \<and>
   0x20 \<le> uchar (CHR 0xC3) \<and> 0x20 \<le> uchar (CHR 0xA9)"
  by code_simp

text \<open>
  For bytes from 0x20 to 0x7F the literal is accepted as C7 says: a quote, a body without
  quote and backslash, and a closing quote give one STRING element that holds the raw
  text with its quotes.
\<close>

lemma substr_take: "n \<le> length t \<Longrightarrow> substr t 0 n = take n t"
  by (rule nth_equalityI) (simp_all add: substr_def char_at_def)

lemma parse_string_loop_plain:
  assumes body: "\<forall>b \<in> set body. schar CHR '' '' \<le> schar b \<and> b \<noteq> CHR 0x22 \<and> b \<noteq> CHR 0x5C"
    and i: "i \<le> length body"
  shows "parse_string_loop (CHR 0x22 # body @ CHR 0x22 # rest)
           \<lparr>m_pos = 1 + i, m_line = l, m_col = col + i\<rparr> (1 + int i) False
         = (True, int (length body) + 2,
            \<lparr>m_pos = length body + 2, m_line = l, m_col = col + length body + 1\<rparr>)"
  using i
proof (induction "length body - i" arbitrary: i)
  case 0
  then have i: "i = length body" by simp
  have "char_at (CHR 0x22 # body @ CHR 0x22 # rest) (1 + i) = CHR 0x22"
    by (simp add: char_at_def i nth_append)
  then show ?case
    by (subst parse_string_loop.simps) (simp add: Let_def schar_def uchar_def advance_def i)
next
  case (Suc n)
  then have lt: "i < length body" by simp
  let ?t = "CHR 0x22 # body @ CHR 0x22 # rest"
  have ch: "char_at ?t (1 + i) = body ! i"
    using lt by (simp add: char_at_def nth_append)
  from body lt have b: "schar CHR '' '' \<le> schar (body ! i)" "body ! i \<noteq> CHR 0x22" "body ! i \<noteq> CHR 0x5C"
    by (auto simp: all_set_conv_all_nth)
  from Suc have "n = length body - Suc i" "Suc i \<le> length body" by simp_all
  from Suc.hyps(1) [OF this]
  have IH: "parse_string_loop ?t \<lparr>m_pos = 1 + Suc i, m_line = l, m_col = col + Suc i\<rparr>
              (1 + int (Suc i)) False
            = (True, int (length body) + 2,
               \<lparr>m_pos = length body + 2, m_line = l, m_col = col + length body + 1\<rparr>)" .
  show ?case
    apply (subst parse_string_loop.simps)
    using ch b IH
    apply (simp add: Let_def advance_def add.commute add.left_commute)
    done
qed

lemma parse_string_accepts_plain_ascii:
  assumes body: "\<forall>b \<in> set body. schar CHR '' '' \<le> schar b \<and> b \<noteq> CHR 0x22 \<and> b \<noteq> CHR 0x5C"
  shows "parse_string (CHR 0x22 # body @ CHR 0x22 # rest) cursor_init elems
         = (int (length body) + 2,
            \<lparr>m_pos = length body + 2, m_line = 1, m_col = length body + 3\<rparr>,
            elems @ [Elem2 STRING (CHR 0x22 # body @ [CHR 0x22])])"
proof -
  let ?t = "CHR 0x22 # body @ CHR 0x22 # rest"
  have loop: "parse_string_loop ?t (advance cursor_init) 1 False
         = (True, int (length body) + 2,
            \<lparr>m_pos = length body + 2, m_line = 1, m_col = 2 + length body + 1\<rparr>)"
    using parse_string_loop_plain [OF body, of 0 rest 1 "Suc (Suc 0)"]
    by (simp add: advance_def cursor_init_def)
  have tok: "substr ?t 0 (length body + 2) = CHR 0x22 # body @ [CHR 0x22]"
    by (simp add: substr_take)
  from loop tok show ?thesis
    by (simp add: parse_string_def cursor_init_def char_at_def nat_add_distrib)
qed

text \<open>
  C5 at the class \<open>[a-bz-y]\<close>: \<^verbatim>\<open>parse_ch_class\<close> accepts it, although the second range
  has the lower bound \<open>z\<close> (122) above the upper bound \<open>y\<close> (121).
\<close>

theorem parse_ch_class_accepts_descending_second_range:
  "parse_ch_class ''[a-bz-y]'' cursor_init [] =
     (8, \<lparr>m_pos = 8, m_line = 1, m_col = 9\<rparr>,
      [Elem CH_CLASS [''['', ''a'', ''-'', ''b'', ''z'', ''-'', ''y'', '']''] ONE []]) \<and>
   snd (decode_to_int32 ''z'') = 122 \<and> snd (decode_to_int32 ''y'') = 121"
  by code_simp

theorem parse_ch_class_accepts_descending_second_range_witness:
  "fst (parse_ch_class ''[a-bz-y]'' cursor_init []) = 8"
  using parse_ch_class_accepts_descending_second_range by simp

section \<open>Properties of the grammar parser\<close>

text \<open>
  C9 at the empty text: \<^verbatim>\<open>parse_grammar\<close> returns true, with no rule and no root,
  whatever the fuel.
\<close>

theorem parse_grammar_accepts_empty_text:
  "parse_grammar k [] cursor_init grammar_init = Some (True, cursor_init, grammar_init, [])"
  by (simp add: parse_grammar_def parse_grammar_loop.simps skip_comments.simps parse_ws.simps
        parse_comment_def cursor_init_def char_at_def Let_def)

section \<open>Properties of the validator\<close>

lemma visit_rule_map_of:
  "map_of (w_rules (visit_rule n tv w)) k =
     (if k = n \<and> map_of (w_rules w) k = None then Some Rule0 else map_of (w_rules w) k)"
  by (auto simp: visit_rule_def Let_def map_of_map_index split: option.split)

lemma visit_rules_map_of:
  "map_of (w_rules (visit_rules xs tv w)) k =
     (if k \<in> set xs \<and> map_of (w_rules w) k = None then Some Rule0 else map_of (w_rules w) k)"
  by (induction xs arbitrary: w) (auto simp: visit_rule_map_of)

definition walk_inv :: "Grammar \<Rightarrow> string list \<Rightarrow> Walk \<Rightarrow> bool" where
  "walk_inv g tv w \<longleftrightarrow>
     refs (w_rules w) = refs (m_rules g) \<and>
     set tv \<union> set (w_visited w) \<subseteq> spec_reachable g \<and>
     m_rule_root g \<in> set tv \<union> set (w_visited w) \<and>
     (\<forall>a \<in> set (w_visited w). refs (m_rules g) a \<subseteq> set tv \<union> set (w_visited w)) \<and>
     fst ` set (w_rules w) = fst ` set (m_rules g) \<union> set (w_visited w) \<and>
     (w_retval w \<longleftrightarrow> set (w_visited w) \<subseteq> fst ` set (m_rules g)) \<and>
     set (w_msgs w) = UndefinedRule ` (set (w_visited w) - fst ` set (m_rules g)) \<and>
     (\<forall>n. map_of (w_rules w) n =
            (if n \<in> set (w_visited w) - fst ` set (m_rules g) then Some Rule0
             else map_of (m_rules g) n)) \<and>
     sorted_wrt (<) (w_visited w) \<and> distinct (map fst (w_rules w))"

lemma spec_reachable_step:
  "a \<in> spec_reachable g \<Longrightarrow> b \<in> refs (m_rules g) a \<Longrightarrow> b \<in> spec_reachable g"
  unfolding spec_reachable_def by (auto intro: rtrancl_into_rtrancl)

lemma spec_reachable_closed:
  assumes "m_rule_root g \<in> S" and "\<And>a b. a \<in> S \<Longrightarrow> b \<in> refs (m_rules g) a \<Longrightarrow> b \<in> S"
  shows "spec_reachable g \<subseteq> S"
proof
  fix x assume "x \<in> spec_reachable g"
  then have "(m_rule_root g, x) \<in> {(a, b). b \<in> refs (m_rules g) a}\<^sup>*"
    by (simp add: spec_reachable_def)
  then show "x \<in> S"
    by (induction rule: rtrancl_induct) (use assms in auto)
qed

lemma walk_inv_step:
  assumes inv: "walk_inv g tv w" and ne: "tv \<noteq> []"
    and w1_def: "w1 = visit_rules tv tv (w\<lparr>w_to_visit_new := []\<rparr>)"
    and tv1_def: "tv1 = filter (\<lambda>k. k \<notin> set (w_visited w1)) (w_to_visit_new w1)"
  shows "walk_inv g tv1 w1"
proof -
  let ?w0 = "w\<lparr>w_to_visit_new := []\<rparr>"
  let ?K = "fst ` set (m_rules g)"
  let ?V = "set (w_visited w)"
  let ?R = "spec_reachable g"
  from inv have refs0: "refs (w_rules w) = refs (m_rules g)"
    and reach: "set tv \<union> ?V \<subseteq> ?R"
    and root: "m_rule_root g \<in> set tv \<union> ?V"
    and closed: "\<forall>a \<in> ?V. refs (m_rules g) a \<subseteq> set tv \<union> ?V"
    and keys: "fst ` set (w_rules w) = ?K \<union> ?V"
    and rv: "w_retval w \<longleftrightarrow> ?V \<subseteq> ?K"
    and msgs: "set (w_msgs w) = UndefinedRule ` (?V - ?K)"
    and mo: "\<forall>n. map_of (w_rules w) n =
               (if n \<in> ?V - ?K then Some Rule0 else map_of (m_rules g) n)"
    and sorted: "sorted_wrt (<) (w_visited w)"
    and dist: "distinct (map fst (w_rules w))"
    by (simp_all add: walk_inv_def)
  have V1: "set (w_visited w1) = ?V \<union> set tv"
    by (simp add: w1_def visit_rules_visited)
  have upper: "set (w_to_visit_new w1) \<subseteq> (\<Union>n \<in> set tv. refs (m_rules g) n)"
    using visit_rules_new_upper [of tv tv ?w0] by (auto simp: w1_def refs0)
  have lower: "(\<Union>n \<in> set tv. refs (m_rules g) n) - (?V \<union> set tv) \<subseteq> set (w_to_visit_new w1)"
    using visit_rules_new_lower [of ?w0 tv tv] by (auto simp: w1_def refs0)
  have tv1: "set tv1 = (\<Union>n \<in> set tv. refs (m_rules g) n) - (?V \<union> set tv)"
    using upper lower by (auto simp: tv1_def V1)
  have c1: "refs (w_rules w1) = refs (m_rules g)"
    by (simp add: w1_def visit_rules_refs refs0)
  have "set tv1 \<subseteq> ?R"
  proof
    fix x assume "x \<in> set tv1"
    then obtain n where "n \<in> set tv" "x \<in> refs (m_rules g) n" unfolding tv1 by blast
    with reach show "x \<in> ?R" by (auto intro: spec_reachable_step)
  qed
  with reach have c2: "set tv1 \<union> set (w_visited w1) \<subseteq> ?R"
    unfolding V1 by blast
  have c3: "m_rule_root g \<in> set tv1 \<union> set (w_visited w1)"
    unfolding V1 using root by blast
  have c4: "\<forall>a \<in> set (w_visited w1). refs (m_rules g) a \<subseteq> set tv1 \<union> set (w_visited w1)"
    unfolding tv1 V1 using closed by blast
  have c5: "fst ` set (w_rules w1) = ?K \<union> set (w_visited w1)"
    using keys by (auto simp: w1_def visit_rules_keys visit_rules_visited)
  have c6: "w_retval w1 \<longleftrightarrow> set (w_visited w1) \<subseteq> ?K"
    using rv keys by (auto simp: w1_def visit_rules_retval visit_rules_visited)
  have c7: "set (w_msgs w1) = UndefinedRule ` (set (w_visited w1) - ?K)"
    using msgs keys by (auto simp: w1_def visit_rules_msgs visit_rules_visited)
  have c8: "\<forall>n. map_of (w_rules w1) n =
              (if n \<in> set (w_visited w1) - ?K then Some Rule0 else map_of (m_rules g) n)"
  proof
    fix n
    have none: "map_of (w_rules w) n = None \<longleftrightarrow> n \<notin> ?K \<union> ?V"
      using keys by (simp add: map_of_eq_None_iff)
    have k: "n \<in> ?K \<Longrightarrow> map_of (w_rules w) n = map_of (m_rules g) n" using mo by simp
    have nk: "n \<notin> ?K \<Longrightarrow> map_of (m_rules g) n = None" by (simp add: map_of_eq_None_iff)
    show "map_of (w_rules w1) n =
            (if n \<in> set (w_visited w1) - ?K then Some Rule0 else map_of (m_rules g) n)"
      using mo none k nk by (auto simp: w1_def visit_rules_map_of visit_rules_visited)
  qed
  have c9: "sorted_wrt (<) (w_visited w1)" "distinct (map fst (w_rules w1))"
    using sorted dist by (simp_all add: w1_def visit_rules_sorted)
  from c1 c2 c3 c4 c5 c6 c7 c8 c9 show ?thesis
    unfolding walk_inv_def by blast
qed

lemma walk_inv_loop: "walk_inv g tv w \<Longrightarrow> walk_inv g [] (check_rules_loop tv w)"
proof (induction tv w rule: check_rules_loop.induct)
  case (1 to_visit w)
  show ?case
  proof (cases "to_visit = []")
    case True
    with "1.prems" show ?thesis by (simp add: check_rules_loop.simps)
  next
    case False
    let ?w1 = "visit_rules to_visit to_visit (w\<lparr>w_to_visit_new := []\<rparr>)"
    let ?tv1 = "filter (\<lambda>k. k \<notin> set (w_visited ?w1)) (w_to_visit_new ?w1)"
    from walk_inv_step [OF "1.prems" False refl refl] have "walk_inv g ?tv1 ?w1" .
    from "1.IH" [OF False refl this] False show ?thesis
      by (subst check_rules_loop.simps) (simp add: Let_def)
  qed
qed

lemma walk_inv_init:
  "distinct (map fst (m_rules g)) \<Longrightarrow>
   walk_inv g (key_insert (m_rule_root g) [])
     \<lparr>w_visited = [], w_rules = m_rules g, w_retval = True, w_msgs = [], w_to_visit_new = []\<rparr>"
  by (simp add: walk_inv_def spec_reachable_def)

lemma walk_inv_final:
  assumes "walk_inv g [] w"
  shows "set (w_visited w) = spec_reachable g"
proof
  from assms show "set (w_visited w) \<subseteq> spec_reachable g" by (simp add: walk_inv_def)
  from assms have "m_rule_root g \<in> set (w_visited w)"
    and "\<And>a b. a \<in> set (w_visited w) \<Longrightarrow> b \<in> refs (m_rules g) a \<Longrightarrow> b \<in> set (w_visited w)"
    by (auto simp: walk_inv_def)
  then show "spec_reachable g \<subseteq> set (w_visited w)" by (rule spec_reachable_closed)
qed

lemma check_rules_walk:
  assumes "distinct (map fst (m_rules g))"
  obtains w where
    "w = check_rules_loop [m_rule_root g]
           \<lparr>w_visited = [], w_rules = m_rules g, w_retval = True, w_msgs = [],
            w_to_visit_new = []\<rparr>"
    "walk_inv g [] w" "set (w_visited w) = spec_reachable g"
proof -
  let ?w = "check_rules_loop [m_rule_root g]
           \<lparr>w_visited = [], w_rules = m_rules g, w_retval = True, w_msgs = [],
            w_to_visit_new = []\<rparr>"
  from walk_inv_loop [OF walk_inv_init [OF assms]] have "walk_inv g [] ?w" by simp
  with walk_inv_final [of g ?w] that show thesis by blast
qed

lemma strict_sorted_distinct: "sorted_wrt (<) (xs :: string list) \<Longrightarrow> distinct xs"
  by (induction xs) auto

lemma length_gt_iff_not_subset:
  assumes "distinct (map fst rules)" and "sorted_wrt (<) (vis :: string list)"
    and "fst ` set rules = K \<union> set vis"
  shows "length rules > length vis \<longleftrightarrow> \<not> K \<subseteq> set vis"
proof -
  from assms(1) have l1: "length rules = card (fst ` set rules)"
    by (metis distinct_card length_map set_map)
  from assms(2) have "distinct vis" by (rule strict_sorted_distinct)
  then have l2: "length vis = card (set vis)" by (simp add: distinct_card)
  show ?thesis
  proof
    assume "length rules > length vis"
    with l1 l2 assms(3) show "\<not> K \<subseteq> set vis"
      by (auto simp: Un_absorb1)
  next
    assume "\<not> K \<subseteq> set vis"
    then have "set vis \<subset> K \<union> set vis" by auto
    then have "card (set vis) < card (K \<union> set vis)"
      by (intro psubset_card_mono) (use assms(3) in \<open>auto intro: finite_subset [of _ "fst ` set rules"]\<close>)
    with l1 l2 assms(3) show "length rules > length vis" by simp
  qed
qed

lemma names_defined_iff:
  assumes "distinct (map fst rules)"
  shows "(\<forall>(n, r) \<in> set rules. elems_names (m_elems r) \<subseteq> K) \<longleftrightarrow> (\<forall>n. refs rules n \<subseteq> K)"
proof
  assume l: "\<forall>(n, r) \<in> set rules. elems_names (m_elems r) \<subseteq> K"
  show "\<forall>n. refs rules n \<subseteq> K"
  proof
    fix n
    show "refs rules n \<subseteq> K"
    proof (cases "map_of rules n")
      case None
      then show ?thesis by (simp add: refs_def)
    next
      case (Some r)
      then have "(n, r) \<in> set rules" by (rule map_of_SomeD)
      with l Some show ?thesis by (auto simp: refs_def)
    qed
  qed
next
  assume r: "\<forall>n. refs rules n \<subseteq> K"
  show "\<forall>(n, r) \<in> set rules. elems_names (m_elems r) \<subseteq> K"
  proof (clarify)
    fix n ru x assume "(n, ru) \<in> set rules" "x \<in> elems_names (m_elems ru)"
    with assms have "map_of rules n = Some ru" by simp
    with r [rule_format, of n] \<open>x \<in> elems_names (m_elems ru)\<close> show "x \<in> K"
      by (auto simp: refs_def)
  qed
qed

text \<open>
  C3 (as amended). For a grammar whose rule map has distinct keys and contains the root
  rule: \<^verbatim>\<open>check_rules\<close> returns true if and only if the identifier of every NAME
  element of every rule (nested ones included) is a key of the rule map and every rule
  is reachable from the root rule through NAME references. Its messages are an
  undefined-rule error for exactly the names that are reachable from the root and are
  not rules, and an unreachable-rule error for exactly the rules that are not reachable.
\<close>

theorem check_rules_correct:
  assumes dist: "distinct (map fst (m_rules g))"
    and root: "m_rule_root g \<in> fst ` set (m_rules g)"
  shows "(fst (check_rules g) \<longleftrightarrow>
            (\<forall>(n, r) \<in> set (m_rules g). elems_names (m_elems r) \<subseteq> fst ` set (m_rules g))
            \<and> fst ` set (m_rules g) \<subseteq> spec_reachable g)
         \<and> set (snd (snd (check_rules g))) =
             UndefinedRule ` (spec_reachable g - fst ` set (m_rules g))
             \<union> UnreachableRule ` (fst ` set (m_rules g) - spec_reachable g)"
proof -
  let ?K = "fst ` set (m_rules g)"
  let ?R = "spec_reachable g"
  from check_rules_walk [OF dist] obtain w where
    w: "w = check_rules_loop [m_rule_root g]
           \<lparr>w_visited = [], w_rules = m_rules g, w_retval = True, w_msgs = [],
            w_to_visit_new = []\<rparr>"
    and inv: "walk_inv g [] w" and vis: "set (w_visited w) = ?R" by blast
  from inv vis have keys: "fst ` set (w_rules w) = ?K \<union> ?R"
    and rv: "w_retval w \<longleftrightarrow> ?R \<subseteq> ?K"
    and msgs: "set (w_msgs w) = UndefinedRule ` (?R - ?K)"
    and sorted: "sorted_wrt (<) (w_visited w)"
    and d: "distinct (map fst (w_rules w))"
    by (simp_all add: walk_inv_def)
  have gt: "length (w_rules w) > length (w_visited w) \<longleftrightarrow> \<not> ?K \<subseteq> ?R"
    using length_gt_iff_not_subset [OF d sorted, of ?K] keys vis by simp
  have res: "fst (check_rules g) \<longleftrightarrow> ?K \<subseteq> ?R \<and> ?R \<subseteq> ?K"
    using gt rv by (simp add: check_rules_def Let_def w [symmetric])
  have closed_iff: "(\<forall>n. refs (m_rules g) n \<subseteq> ?K) \<and> ?K \<subseteq> ?R \<longleftrightarrow> ?K \<subseteq> ?R \<and> ?R \<subseteq> ?K"
  proof
    assume a: "(\<forall>n. refs (m_rules g) n \<subseteq> ?K) \<and> ?K \<subseteq> ?R"
    have "?R \<subseteq> ?K"
      by (rule spec_reachable_closed) (use a root in auto)
    with a show "?K \<subseteq> ?R \<and> ?R \<subseteq> ?K" by simp
  next
    assume b: "?K \<subseteq> ?R \<and> ?R \<subseteq> ?K"
    have "refs (m_rules g) n \<subseteq> ?K" for n
    proof (cases "n \<in> ?K")
      case True
      with b have "n \<in> ?R" by auto
      then have "refs (m_rules g) n \<subseteq> ?R" by (auto intro: spec_reachable_step)
      with b show ?thesis by auto
    next
      case False
      then show ?thesis by (simp add: refs_outside)
    qed
    with b show "(\<forall>n. refs (m_rules g) n \<subseteq> ?K) \<and> ?K \<subseteq> ?R" by simp
  qed
  have m: "set (snd (snd (check_rules g))) = UndefinedRule ` (?R - ?K) \<union> UnreachableRule ` (?K - ?R)"
  proof (cases "?K \<subseteq> ?R")
    case True
    then have e: "UnreachableRule ` (?K - ?R) = {}" by auto
    from True gt msgs have "set (snd (snd (check_rules g))) = UndefinedRule ` (?R - ?K)"
      by (simp add: check_rules_def Let_def w [symmetric])
    then show ?thesis unfolding e by simp
  next
    case False
    have "{x \<in> fst ` set (w_rules w). x \<notin> ?R} = ?K - ?R" using keys by auto
    with False gt msgs vis show ?thesis
      by (simp add: check_rules_def Let_def w [symmetric] image_Un)
  qed
  from res closed_iff names_defined_iff [OF dist, of ?K] m show ?thesis by simp
qed

text \<open>
  C10 (as amended). For a grammar whose rule map has distinct keys: every name that is
  reachable from the root rule through NAME references and is not a rule is, after
  \<^verbatim>\<open>check_rules\<close>, a key of the rule map with an empty rule; the keys afterwards are
  the keys before together with the reachable names.
\<close>

theorem check_rules_inserts_reached_names:
  assumes dist: "distinct (map fst (m_rules g))"
    and reach: "n \<in> spec_reachable g"
    and undef: "n \<notin> fst ` set (m_rules g)"
  shows "map_of (m_rules (fst (snd (check_rules g)))) n = Some Rule0
         \<and> fst ` set (m_rules (fst (snd (check_rules g))))
             = fst ` set (m_rules g) \<union> spec_reachable g"
proof -
  from check_rules_walk [OF dist] obtain w where
    w: "w = check_rules_loop [m_rule_root g]
           \<lparr>w_visited = [], w_rules = m_rules g, w_retval = True, w_msgs = [],
            w_to_visit_new = []\<rparr>"
    and inv: "walk_inv g [] w" and vis: "set (w_visited w) = spec_reachable g" by blast
  have g1: "m_rules (fst (snd (check_rules g))) = w_rules w"
    by (simp add: check_rules_def Let_def w [symmetric])
  from inv vis reach undef show ?thesis
    by (simp add: g1 walk_inv_def)
qed

lemma parse_unreached_grammar:
  \<open>parse_grammar 20 ''a : "x"; b : c;'' cursor_init grammar_init
     = Some (True, \<lparr>m_pos = 15, m_line = 1, m_col = 16\<rparr>, unreached_grammar, [])\<close>
  by code_simp

lemma parse_cyclic_grammar:
  \<open>parse_grammar 20 ''a : b "x"; b : "y" a?;'' cursor_init grammar_init
     = Some (True, \<lparr>m_pos = 22, m_line = 1, m_col = 23\<rparr>, cyclic_grammar, [])\<close>
  by code_simp

lemma parse_dangling_grammar:
  \<open>parse_grammar 20 ''a : b;'' cursor_init grammar_init
     = Some (True, \<lparr>m_pos = 6, m_line = 1, m_col = 7\<rparr>, dangling_grammar, [])\<close>
  by code_simp

theorem check_rules_correct_witness:
  "distinct (map fst (m_rules cyclic_grammar)) \<and>
   m_rule_root cyclic_grammar \<in> fst ` set (m_rules cyclic_grammar) \<and>
   fst (check_rules cyclic_grammar) \<and>
   fst ` set (m_rules cyclic_grammar) \<subseteq> spec_reachable cyclic_grammar \<and>
   set (snd (snd (check_rules cyclic_grammar))) = {}"
proof -
  have d: "distinct (map fst (m_rules cyclic_grammar))" by code_simp
  have r: "m_rule_root cyclic_grammar \<in> fst ` set (m_rules cyclic_grammar)" by code_simp
  have ok: "fst (check_rules cyclic_grammar)" by code_simp
  have ms: "set (snd (snd (check_rules cyclic_grammar))) = {}" by code_simp
  from check_rules_correct [OF d r] ok
  have "fst ` set (m_rules cyclic_grammar) \<subseteq> spec_reachable cyclic_grammar" by blast
  with d r ok ms show ?thesis by blast
qed

text \<open>
  C3 as stated fails on \<open>a : "x"; b : c;\<close>: the name \<open>c\<close> is referenced and is no
  rule, and the only message is the unreachable-rule error for \<open>b\<close>.
\<close>

theorem check_rules_silent_on_unreached_reference:
  "''c'' \<in> refs (m_rules unreached_grammar) ''b'' \<and>
   ''c'' \<notin> fst ` set (m_rules unreached_grammar) \<and>
   snd (snd (check_rules unreached_grammar)) = [UnreachableRule ''b''] \<and>
   UndefinedRule ''c'' \<notin> set (snd (snd (check_rules unreached_grammar)))"
  by code_simp

theorem check_rules_inserts_reached_names_witness:
  "distinct (map fst (m_rules dangling_grammar)) \<and>
   ''b'' \<in> spec_reachable dangling_grammar \<and>
   ''b'' \<notin> fst ` set (m_rules dangling_grammar) \<and>
   map_of (m_rules (fst (snd (check_rules dangling_grammar)))) ''b'' = Some Rule0 \<and>
   fst ` set (m_rules (fst (snd (check_rules dangling_grammar)))) =
     fst ` set (m_rules dangling_grammar) \<union> spec_reachable dangling_grammar"
proof -
  have d: "distinct (map fst (m_rules dangling_grammar))" by code_simp
  have "''b'' \<in> refs (m_rules dangling_grammar) ''a''" by code_simp
  then have r: "''b'' \<in> spec_reachable dangling_grammar"
    by (auto simp: spec_reachable_def dangling_grammar_def)
  have u: "''b'' \<notin> fst ` set (m_rules dangling_grammar)" by code_simp
  from check_rules_inserts_reached_names [OF d r u] d r u show ?thesis by blast
qed

text \<open>
  C10 as stated fails on \<open>a : "x"; b : c;\<close>: the undefined name \<open>c\<close> is referenced
  from the unreachable rule \<open>b\<close> only, and the rule map after validation is the rule
  map before.
\<close>

theorem check_rules_leaves_unreached_reference:
  "''c'' \<in> refs (m_rules unreached_grammar) ''b'' \<and>
   ''c'' \<notin> fst ` set (m_rules unreached_grammar) \<and>
   m_rules (fst (snd (check_rules unreached_grammar))) = m_rules unreached_grammar"
  by code_simp

section \<open>Properties of the driver\<close>

text \<open>
  C4 at the grammar file \<open>r : "a"; r : "b";\<close>: \<^verbatim>\<open>parse_grammar\<close> returns false with
  the duplicate-rule message, nothing is emitted, and the exit status is 0.
\<close>

theorem main_exits_zero_on_duplicate_rule:
  \<open>parse_grammar 20 ''r : "a"; r : "b";'' cursor_init grammar_init
     = Some (False, \<lparr>m_pos = 10, m_line = 1, m_col = 11\<rparr>,
             \<lparr>m_rules = [(''r'', \<lparr>m_name = ''r'', m_mod = [],
                  m_elems = [Elem ALT [] ONE [Elem STRING [[CHR 0x22, CHR ''a'', CHR 0x22]] ONE []]]\<rparr>)],
              m_rule_root = ''r''\<rparr>,
             [DuplicateRule ''r'']) \<and>
   main 20 2 (FileContents ''r : "a"; r : "b";'') = Some (0, False, [DuplicateRule ''r''])\<close>
  by code_simp

lemma main_exit_status_after_read:
  "main k argc (FileContents buf) = Some (status, printed, msgs) \<Longrightarrow> 2 \<le> argc \<Longrightarrow> status = 0"
  by (auto simp: main_def split: option.splits if_splits prod.splits)

lemma main_exits_zero_on_validation_failure:
  \<open>main 20 2 (FileContents ''a : "x"; b : c;'') = Some (0, False, [UnreachableRule ''b''])\<close>
  by code_simp

section \<open>Properties of the emitted parser\<close>

lemma parse_two_step_grammar:
  \<open>parse_grammar 20 ''r : "ab" "cd" | "ab" "ce";'' cursor_init grammar_init
     = Some (True, \<lparr>m_pos = 26, m_line = 1, m_col = 27\<rparr>, two_step_grammar, [])\<close>
  by code_simp

lemma parse_single_literal_grammar:
  \<open>parse_grammar 20 ''foo : "x";'' cursor_init grammar_init
     = Some (True, \<lparr>m_pos = 10, m_line = 1, m_col = 11\<rparr>, single_literal_grammar, [])\<close>
  by code_simp

text \<open>
  C2 at the grammar \<open>r : "ab" "cd" | "ab" "ce";\<close> and the input \<open>abce\<close>. The first
  alternate fails at its second element and leaves the cursor at position 2, behind the
  \<open>ab\<close> its first element consumed (line and column are those of the alternate's
  start). The second alternate matches the input from position 0, but is tried from
  position 2, so \<^verbatim>\<open>parse_r\<close> returns \<^verbatim>\<open>RET_FAIL\<close>.
\<close>

theorem emitted_alternate_keeps_consumed_input:
  "exec_alt 8 (env_of two_step_grammar ''abce'')
     (Elem ALT [] ONE
        [Elem STRING [[CHR 0x22, CHR ''a'', CHR ''b'', CHR 0x22]] ONE [],
         Elem STRING [[CHR 0x22, CHR ''c'', CHR ''d'', CHR 0x22]] ONE []])
     False parser_init (ASTNode 0 ''r'' [])
   = Some (False,
           \<lparr>m_pos = 2, m_line = 1, m_col = 1, m_pos_ok = 2, m_line_ok = 1, m_col_ok = 3\<rparr>,
           ASTNode 0 ''r'' [ASTNode 0 ''ab'' []]) \<and>
   exec_alt 8 (env_of two_step_grammar ''abce'')
     (Elem ALT [] ONE
        [Elem STRING [[CHR 0x22, CHR ''a'', CHR ''b'', CHR 0x22]] ONE [],
         Elem STRING [[CHR 0x22, CHR ''c'', CHR ''e'', CHR 0x22]] ONE []])
     False parser_init (ASTNode 0 ''r'' [])
   = Some (True,
           \<lparr>m_pos = 4, m_line = 1, m_col = 5, m_pos_ok = 4, m_line_ok = 1, m_col_ok = 5\<rparr>,
           ASTNode 0 ''r'' [ASTNode 0 ''ab'' [], ASTNode 2 ''ce'' []]) \<and>
   exec_rule 12 (env_of two_step_grammar ''abce'')
     \<lparr>m_name = ''r'', m_mod = [],
      m_elems =
        [Elem ALT [] ONE
           [Elem STRING [[CHR 0x22, CHR ''a'', CHR ''b'', CHR 0x22]] ONE [],
            Elem STRING [[CHR 0x22, CHR ''c'', CHR ''d'', CHR 0x22]] ONE []],
         Elem ALT [] ONE
           [Elem STRING [[CHR 0x22, CHR ''a'', CHR ''b'', CHR 0x22]] ONE [],
            Elem STRING [[CHR 0x22, CHR ''c'', CHR ''e'', CHR 0x22]] ONE []]]\<rparr>
     parser_init root_node
   = Some (RET_FAIL,
           \<lparr>m_pos = 0, m_line = 1, m_col = 1, m_pos_ok = 2, m_line_ok = 1, m_col_ok = 3\<rparr>,
           root_node)"
  by code_simp

theorem emitted_alternate_keeps_consumed_input_witness:
  "exec_rule 12 (env_of two_step_grammar ''abce'')
     \<lparr>m_name = ''r'', m_mod = [],
      m_elems =
        [Elem ALT [] ONE
           [Elem STRING [[CHR 0x22, CHR ''a'', CHR ''b'', CHR 0x22]] ONE [],
            Elem STRING [[CHR 0x22, CHR ''c'', CHR ''d'', CHR 0x22]] ONE []],
         Elem ALT [] ONE
           [Elem STRING [[CHR 0x22, CHR ''a'', CHR ''b'', CHR 0x22]] ONE [],
            Elem STRING [[CHR 0x22, CHR ''c'', CHR ''e'', CHR 0x22]] ONE []]]\<rparr>
     parser_init root_node
   = Some (RET_FAIL,
           \<lparr>m_pos = 0, m_line = 1, m_col = 1, m_pos_ok = 2, m_line_ok = 1, m_col_ok = 3\<rparr>,
           root_node)"
  using emitted_alternate_keeps_consumed_input by simp

text \<open>
  When the failing element is the first of its alternate, the position it goes back to
  is the start of the alternate: for \<open>r : "ab" | "ac";\<close> and the input \<open>ac\<close> the
  second alternate is tried from position 0 and matches.
\<close>

lemma emitted_first_element_failure_backtracks:
  "exec_rule 12
     \<lparr>e_literal = unquote,
      e_grammar = \<lparr>m_rules = [], m_rule_root = ''r''\<rparr>,
      e_text = ''ac''\<rparr>
     \<lparr>m_name = ''r'', m_mod = [],
      m_elems =
        [Elem ALT [] ONE [Elem STRING [[CHR 0x22, CHR ''a'', CHR ''b'', CHR 0x22]] ONE []],
         Elem ALT [] ONE [Elem STRING [[CHR 0x22, CHR ''a'', CHR ''c'', CHR 0x22]] ONE []]]\<rparr>
     parser_init root_node
   = Some (RET_OK,
           \<lparr>m_pos = 2, m_line = 1, m_col = 3, m_pos_ok = 2, m_line_ok = 1, m_col_ok = 3\<rparr>,
           ASTNode 0 ''ROOT'' [ASTNode 0 ''r'' [ASTNode 0 ''ac'' []]])"
  by code_simp

text \<open>
  The grammar parser builds the two grammars with \<open>+\<close> elements.
\<close>

lemma parse_modifier_grammar:
  \<open>parse_grammar 40 ''a : "x"+; b discard : "x"+; c inline : "x"+; d mergeup : "x"+;''
     cursor_init grammar_init
     = Some (True, \<lparr>m_pos = 62, m_line = 1, m_col = 63\<rparr>, modifier_grammar, [])\<close>
  by code_simp

lemma parse_two_counters_grammar:
  \<open>parse_grammar 20 ''r : "a"+ "b"+;'' cursor_init grammar_init
     = Some (True, \<lparr>m_pos = 14, m_line = 1, m_col = 15\<rparr>, two_counters_grammar, [])\<close>
  by code_simp






text \<open>
  The function returns in no other way: a result of \<open>exec_rule\<close> comes from a result
  of the alternates block with one unit of fuel less, for a rule whose body declares no
  counter twice.
\<close>

lemma rule_function_returns_only_after_alternates:
  assumes "exec_rule k env rule p parent = Some r"
  shows "\<exists>j x. k = Suc j \<and> alts_declare_once (m_elems rule) \<and>
           exec_alts j env (m_elems rule) p
             (if m_mod rule = ''mergeup'' then parent
              else ASTNode (m_pos p) (m_name rule) []) = Some x"
proof (cases k)
  case 0
  with assms show ?thesis by simp
next
  case (Suc j)
  with assms show ?thesis
    by (auto simp: Let_def split: if_splits option.splits)
qed

text \<open>
  A rule with two \<open>+\<close> elements in one alternate has no function: the class printed
  for \<open>r : "a"+ "b"+;\<close> declares \<^verbatim>\<open>counter2\<close> twice in the block of the alternate.
\<close>

lemma rule_function_redeclares_counter:
  "\<not> alts_declare_once (m_elems rule) \<Longrightarrow> exec_rule k env rule p parent = None"
  by (cases k) simp_all

lemma two_counters_rule_has_no_function:
  "exec_rule k (env_of two_counters_grammar t)
     \<lparr>m_name = ''r'', m_mod = [],
      m_elems = [Elem ALT [] ONE
                   [Elem STRING [[CHR 0x22, CHR ''a'', CHR 0x22]] ONE_PLUS [],
                    Elem STRING [[CHR 0x22, CHR ''b'', CHR 0x22]] ONE_PLUS []]]\<rparr>
     p parent = None"
  by (rule rule_function_redeclares_counter) (simp add: counter_decls_def)

end
